theory Spec2Isabelle
  imports Main "HOL-Library.Char_ord" "HOL-Library.List_Lexorder"
begin

section \<open>Backup and restore orchestration of \<open>priam.go\<close>\<close>

text \<open>
  The Go file \<open>priam.go\<close> holds the orchestrator \<open>Priam\<close>: \<open>History\<close>, \<open>Backup\<close>,
  \<open>Restore\<close> and their helpers. It drives four collaborators that live in other files of
  the package: the remote executor (\<open>Agent\<close>), the node driver (\<open>Cassandra\<close>), the object
  store client (\<open>S3\<close>) and the loaded \<open>SnapshotHistory\<close>. The embedding passes the
  orchestrator's state explicitly and takes the collaborators as parameters; every call to
  a collaborator is appended to a trace, so that the order of the calls can be stated.

  Go strings are byte strings and are compared bytewise and lexicographically, which is
  the order of \<open>char list\<close> given by \<open>Char_ord\<close> and \<open>List_Lexorder\<close>. A Go \<open>error\<close> is
  represented by its message; \<open>nil\<close> is \<open>None\<close>. Calls to \<open>glog\<close> only write to the log and
  are left out.
\<close>

subsection \<open>Data\<close>

text \<open>The fields of \<open>Config\<close> that \<open>priam.go\<close> reads or writes.\<close>

record config =
  AwsBasePath :: string
  Keyspace :: string
  Incremental :: bool
  Snapshot :: string
  CqlshPath :: string
  TempDir :: string

text \<open>
  One entry of the trace per call that leaves \<open>priam.go\<close>. A call that returns an \<open>error\<close>
  carries \<open>True\<close> when the error was \<open>nil\<close>; a query carries its answer.
\<close>

datatype event =
    EvHosts "string list"
  | EvS3SnapshotHistory bool
  | EvNow string
  | EvPrintf
  | EvHistList "string list"
  | EvHistValid string bool
  | EvHistParent string string
  | EvHistKeys string bool
  | EvSchemaBackup string bool
  | EvS3UploadFile string string string bool
  | EvSnapshot string string bool
  | EvS3UploadFiles string string string bool
  | EvDeleteSnapshot string bool
  | EvAgentRun string string bool
  | EvAgentUploadFile string string string bool
  | EvS3DownloadKey string string bool
  | EvS3DownloadKeys string bool
  | EvSSTableLoad string bool

text \<open>
  The struct \<open>Priam\<close>. The pointer \<open>hist\<close> is \<open>nil\<close> until the history is loaded; the type
  of the history is a parameter. The fields \<open>agent\<close>, \<open>cassandra\<close> and \<open>s3\<close> are the
  collaborators below.
\<close>

record 'h priam =
  config :: config
  hist :: "'h option"
  trace :: "event list"

text \<open>
  The collaborators, none of which is defined in \<open>priam.go\<close>. Each one may answer
  differently at every call, so it reads the orchestrator's state (the shared
  configuration and the calls made so far). \<open>'f\<close> and \<open>'d\<close> are the types of the files and
  directories of a node snapshot, \<open>'k\<close> the type of the key collection of \<open>Keys\<close>. The map
  that \<open>downloadKeys\<close> returns is given in the order in which the \<open>range\<close> loop of
  \<open>uploadFilesToHost\<close> visits it. \<open>path_Dir\<close> and \<open>path_Join\<close> are the functions of Go's
  package \<open>path\<close>.
\<close>

record ('h, 'f, 'd, 'k) env =
  cassandra_Hosts :: "'h priam \<Rightarrow> string list"
  cassandra_SchemaBackup :: "'h priam \<Rightarrow> string \<Rightarrow> string + string"
  cassandra_Snapshot :: "'h priam \<Rightarrow> string \<Rightarrow> string \<Rightarrow> string + ('f \<times> 'd)"
  cassandra_deleteSnapshot :: "'h priam \<Rightarrow> string \<Rightarrow> 'd \<Rightarrow> string option"
  cassandra_sstableload :: "'h priam \<Rightarrow> string \<Rightarrow> (string \<rightharpoonup> bool) \<Rightarrow> string option"
  s3_SnapshotHistory :: "'h priam \<Rightarrow> string + 'h"
  s3_UploadFile :: "'h priam \<Rightarrow> string \<Rightarrow> string \<Rightarrow> string \<Rightarrow> string option"
  s3_UploadFiles :: "'h priam \<Rightarrow> string \<Rightarrow> string \<Rightarrow> string \<Rightarrow> 'f \<Rightarrow> string option"
  s3_downloadKey :: "'h priam \<Rightarrow> string \<Rightarrow> string \<Rightarrow> string + string"
  s3_downloadKeys :: "'h priam \<Rightarrow> 'k \<Rightarrow> string \<Rightarrow> string + (string \<times> string) list"
  agent_Run :: "'h priam \<Rightarrow> string \<Rightarrow> string \<Rightarrow> string + string"
  agent_UploadFile :: "'h priam \<Rightarrow> string \<Rightarrow> string \<Rightarrow> string \<Rightarrow> string option"
  hist_List :: "'h \<Rightarrow> string list"
  hist_Valid :: "'h \<Rightarrow> string \<Rightarrow> bool"
  hist_Parent :: "'h \<Rightarrow> string \<Rightarrow> string"
  hist_Keys :: "'h \<Rightarrow> string \<Rightarrow> string + 'k"
  time_Now :: "'h priam \<Rightarrow> string"
  path_Dir :: "string \<Rightarrow> string"
  path_Join :: "string \<Rightarrow> string \<Rightarrow> string"

subsection \<open>Helpers\<close>

definition emit :: "event \<Rightarrow> 'h priam \<Rightarrow> 'h priam" where
  "emit e p = p\<lparr>trace := trace p @ [e]\<rparr>"

text \<open>\<open>errors.Wrap(err, msg)\<close>: the message of the wrapped error is \<open>msg: err\<close>.\<close>

definition Wrap :: "string \<Rightarrow> string \<Rightarrow> string" where
  "Wrap err msg = msg @ '': '' @ err"

text \<open>\<open>strings.TrimSuffix\<close>.\<close>

definition TrimSuffix :: "string \<Rightarrow> string \<Rightarrow> string" where
  "TrimSuffix s suffix =
     (if length suffix \<le> length s \<and> drop (length s - length suffix) s = suffix
      then take (length s - length suffix) s else s)"

subsection \<open>History\<close>

definition SnapshotHistory :: "('h, 'f, 'd, 'k) env \<Rightarrow> 'h priam \<Rightarrow> string option \<times> 'h priam" where
  "SnapshotHistory E p =
     (if hist p \<noteq> None then (None, p)
      else case s3_SnapshotHistory E p of
             Inl err \<Rightarrow>
               (Some (Wrap err ''error getting snapshot history''),
                emit (EvS3SnapshotHistory False) p)
           | Inr h \<Rightarrow> (None, (emit (EvS3SnapshotHistory True) p)\<lparr>hist := Some h\<rparr>))"

definition History :: "('h, 'f, 'd, 'k) env \<Rightarrow> 'h priam \<Rightarrow> string option \<times> 'h priam" where
  "History E p =
     (case SnapshotHistory E p of
        (Some err, p1) \<Rightarrow> (Some (Wrap err ''error getting snapshot history''), p1)
      | (None, p1) \<Rightarrow> (None, emit EvPrintf p1))"

definition NewTimestamp :: "('h, 'f, 'd, 'k) env \<Rightarrow> 'h priam \<Rightarrow> string \<times> 'h priam" where
  "NewTimestamp E p = (let t = time_Now E p in (t, emit (EvNow t) p))"

subsection \<open>Backup\<close>

text \<open>The key of the schema file, as \<open>schemaBackup\<close> formats it.\<close>

definition schemaBackup_key :: "config \<Rightarrow> string \<Rightarrow> string \<Rightarrow> string" where
  "schemaBackup_key c parent timestamp =
     ''/'' @ AwsBasePath c @ ''/'' @ Keyspace c @ ''/'' @ parent @ ''/'' @ timestamp
       @ ''/'' @ Keyspace c @ ''.schema.gz''"

definition schemaBackup ::
  "('h, 'f, 'd, 'k) env \<Rightarrow> string \<Rightarrow> string \<Rightarrow> string \<Rightarrow> 'h priam \<Rightarrow> string option \<times> 'h priam" where
  "schemaBackup E parent timestamp host p =
     (case cassandra_SchemaBackup E p host of
        Inl err \<Rightarrow> (Some (Wrap err ''schema backup''), emit (EvSchemaBackup host False) p)
      | Inr schemaFile \<Rightarrow>
          (let p1 = emit (EvSchemaBackup host True) p;
               key = schemaBackup_key (config p1) parent timestamp
           in case s3_UploadFile E p1 host schemaFile key of
                Some err \<Rightarrow>
                  (Some (Wrap err (''schema upload @ '' @ host)),
                   emit (EvS3UploadFile host schemaFile key False) p1)
              | None \<Rightarrow> (None, emit (EvS3UploadFile host schemaFile key True) p1)))"

text \<open>The loop over the hosts of \<open>Backup\<close>; a \<open>return\<close> inside the loop ends it.\<close>

fun backupHosts ::
  "('h, 'f, 'd, 'k) env \<Rightarrow> string \<Rightarrow> string \<Rightarrow> string list \<Rightarrow> 'h priam \<Rightarrow> string option \<times> 'h priam" where
  "backupHosts E parent timestamp [] p = (None, p)"
| "backupHosts E parent timestamp (host # hosts) p =
     (case cassandra_Snapshot E p host timestamp of
        Inl err \<Rightarrow>
          (Some (Wrap err (''snapshot @ '' @ host)), emit (EvSnapshot host timestamp False) p)
      | Inr (files, dirs) \<Rightarrow>
          (let p1 = emit (EvSnapshot host timestamp True) p
           in case s3_UploadFiles E p1 parent timestamp host files of
                Some err \<Rightarrow>
                  (Some (Wrap err (''upload @ '' @ host)),
                   emit (EvS3UploadFiles parent timestamp host False) p1)
              | None \<Rightarrow>
                  (let p2 = emit (EvS3UploadFiles parent timestamp host True) p1
                   in case cassandra_deleteSnapshot E p2 host dirs of
                        Some err \<Rightarrow>
                          (Some (Wrap err (''delete @ '' @ host)),
                           emit (EvDeleteSnapshot host False) p2)
                      | None \<Rightarrow>
                          backupHosts E parent timestamp hosts
                            (emit (EvDeleteSnapshot host True) p2))))"

text \<open>
  \<open>Backup\<close>. After \<open>SnapshotHistory\<close> has returned \<open>nil\<close> the pointer \<open>hist\<close> is set; the
  branch for a \<open>nil\<close> pointer is the panic of the Go runtime and is never taken
  (lemma \<open>SnapshotHistory_ok\<close>).
\<close>

definition Backup :: "('h, 'f, 'd, 'k) env \<Rightarrow> 'h priam \<Rightarrow> string option \<times> 'h priam" where
  "Backup E p =
     (let hosts = cassandra_Hosts E p;
          p1 = emit (EvHosts hosts) p
      in if length hosts = 0 then (Some ''unable to get any cassandra hosts'', p1)
         else case SnapshotHistory E p1 of
                (Some err, p2) \<Rightarrow> (Some (Wrap err ''error getting snapshot history''), p2)
              | (None, p2) \<Rightarrow>
                  (case hist p2 of
                     None \<Rightarrow> (Some ''panic: nil pointer dereference'', p2)
                   | Some h \<Rightarrow>
                       (let (timestamp, p3) = NewTimestamp E p2;
                            parent = timestamp;
                            snapshots = hist_List E h;
                            p4 = emit (EvHistList snapshots) p3
                        in if length snapshots > 0
                              \<and> snapshots ! (length snapshots - 1) > timestamp
                           then (Some (''new timestamp '' @ timestamp @ '' less than last''), p4)
                           else
                             (let (parent, p5) =
                                    (if length snapshots > 0 \<and> Incremental (config p4)
                                     then (snapshots ! (length snapshots - 1), p4)
                                     else (parent, p4\<lparr>config := (config p4)\<lparr>Incremental := False\<rparr>\<rparr>))
                              in case schemaBackup E parent timestamp (hosts ! 0) p5 of
                                   (Some err, p6) \<Rightarrow> (Some (Wrap err ''schema backup failed''), p6)
                                 | (None, p6) \<Rightarrow> backupHosts E parent timestamp hosts p6))))"

subsection \<open>Restore\<close>

definition deleteKeyspace_cmd :: "config \<Rightarrow> string" where
  "deleteKeyspace_cmd c =
     ''echo '' @ [CHR 0x27] @ ''DROP KEYSPACE IF EXISTS '' @ Keyspace c @ '';'' @ [CHR 0x27]
       @ '' | '' @ CqlshPath c"

definition deleteKeyspace ::
  "('h, 'f, 'd, 'k) env \<Rightarrow> string \<Rightarrow> 'h priam \<Rightarrow> string option \<times> 'h priam" where
  "deleteKeyspace E host p =
     (let cmd = deleteKeyspace_cmd (config p)
      in case agent_Run E p host cmd of
           Inl err \<Rightarrow> (Some err, emit (EvAgentRun host cmd False) p)
         | Inr out \<Rightarrow> (None, emit (EvAgentRun host cmd True) p))"

text \<open>The key of the schema file, as \<open>createSchema\<close> formats it.\<close>

definition createSchema_key :: "config \<Rightarrow> string \<Rightarrow> string \<Rightarrow> string" where
  "createSchema_key c parent snapshot =
     ''/'' @ AwsBasePath c @ ''/'' @ Keyspace c @ ''/'' @ parent @ ''/'' @ snapshot
       @ ''/'' @ Keyspace c @ ''.schema.gz''"

definition createSchema ::
  "('h, 'f, 'd, 'k) env \<Rightarrow> 'h \<Rightarrow> string \<Rightarrow> string \<Rightarrow> 'h priam \<Rightarrow> string option \<times> 'h priam" where
  "createSchema E h host snapshot p =
     (let parent = hist_Parent E h snapshot;
          p1 = emit (EvHistParent snapshot parent) p;
          key = createSchema_key (config p1) parent snapshot;
          localTmpDir = TempDir (config p1) @ ''/local'';
          remoteTmpDir = TempDir (config p1) @ ''/remote''
      in case s3_downloadKey E p1 key localTmpDir of
           Inl err \<Rightarrow>
             (Some (Wrap err ''error downloading schema key''),
              emit (EvS3DownloadKey key localTmpDir False) p1)
         | Inr localFile \<Rightarrow>
             (let p2 = emit (EvS3DownloadKey key localTmpDir True) p1;
                  remoteFile = TrimSuffix (path_Join E remoteTmpDir key) ''.gz'';
                  remoteDir = path_Dir E remoteFile
              in case agent_UploadFile E p2 host localFile remoteDir of
                   Some err \<Rightarrow>
                     (Some (Wrap err ''error uploading file''),
                      emit (EvAgentUploadFile host localFile remoteDir False) p2)
                 | None \<Rightarrow>
                     (let p3 = emit (EvAgentUploadFile host localFile remoteDir True) p2;
                          cmd = ''cat '' @ remoteFile @ '' | '' @ CqlshPath (config p3)
                      in case agent_Run E p3 host cmd of
                           Inl err \<Rightarrow>
                             (Some (Wrap err ''failed creating schema''),
                              emit (EvAgentRun host cmd False) p3)
                         | Inr out \<Rightarrow> (None, emit (EvAgentRun host cmd True) p3))))"

text \<open>
  The loop of \<open>uploadFilesToHost\<close> over the entries of \<open>files\<close>, with the map \<open>dirs\<close> built
  so far. On an error the Go function returns \<open>nil\<close> in place of the map.
\<close>

fun uploadFilesLoop ::
  "('h, 'f, 'd, 'k) env \<Rightarrow> string \<Rightarrow> string \<Rightarrow> (string \<times> string) list \<Rightarrow> (string \<rightharpoonup> bool)
     \<Rightarrow> 'h priam \<Rightarrow> (string + (string \<rightharpoonup> bool)) \<times> 'h priam" where
  "uploadFilesLoop E host remoteTmpDir [] dirs p = (Inr dirs, p)"
| "uploadFilesLoop E host remoteTmpDir ((key, localFile) # files) dirs p =
     (let remoteDir = path_Dir E (remoteTmpDir @ ''/'' @ key)
      in case agent_UploadFile E p host localFile remoteDir of
           Some err \<Rightarrow>
             (Inl (Wrap err ''error uploading backup files to host''),
              emit (EvAgentUploadFile host localFile remoteDir False) p)
         | None \<Rightarrow>
             uploadFilesLoop E host remoteTmpDir files (dirs(remoteDir \<mapsto> True))
               (emit (EvAgentUploadFile host localFile remoteDir True) p))"

definition uploadFilesToHost ::
  "('h, 'f, 'd, 'k) env \<Rightarrow> string \<Rightarrow> string \<Rightarrow> (string \<times> string) list
     \<Rightarrow> 'h priam \<Rightarrow> (string + (string \<rightharpoonup> bool)) \<times> 'h priam" where
  "uploadFilesToHost E host remoteTmpDir files p =
     uploadFilesLoop E host remoteTmpDir files Map.empty p"

definition loadSnapshot ::
  "('h, 'f, 'd, 'k) env \<Rightarrow> 'h \<Rightarrow> string \<Rightarrow> string \<Rightarrow> 'h priam \<Rightarrow> string option \<times> 'h priam" where
  "loadSnapshot E h host snapshot p =
     (let localTmpDir = TempDir (config p) @ ''/local'';
          remoteTmpDir = TempDir (config p) @ ''/remote''
      in case hist_Keys E h snapshot of
           Inl err \<Rightarrow>
             (Some (Wrap err ''failed to get all keys''), emit (EvHistKeys snapshot False) p)
         | Inr keys \<Rightarrow>
             (let p1 = emit (EvHistKeys snapshot True) p
              in case s3_downloadKeys E p1 keys localTmpDir of
                   Inl err \<Rightarrow>
                     (Some (Wrap err ''error downloading keys''),
                      emit (EvS3DownloadKeys localTmpDir False) p1)
                 | Inr files \<Rightarrow>
                     (case uploadFilesToHost E host remoteTmpDir files
                             (emit (EvS3DownloadKeys localTmpDir True) p1) of
                        (Inl err, p3) \<Rightarrow>
                          (Some (Wrap err ''could not upload files to host''), p3)
                      | (Inr dirs, p3) \<Rightarrow>
                          (case cassandra_sstableload E p3 host dirs of
                             Some err \<Rightarrow>
                               (Some (Wrap err ''failed to run sstableloader''),
                                emit (EvSSTableLoad host False) p3)
                           | None \<Rightarrow> (None, emit (EvSSTableLoad host True) p3)))))"

text \<open>
  \<open>Restore\<close>. The two tests \<open>snapshot == ""\<close> follow each other as in the source; the list
  of the history is read only when no snapshot is configured.
\<close>

definition Restore :: "('h, 'f, 'd, 'k) env \<Rightarrow> 'h priam \<Rightarrow> string option \<times> 'h priam" where
  "Restore E p =
     (let hosts = cassandra_Hosts E p;
          p1 = emit (EvHosts hosts) p
      in if length hosts = 0 then (Some ''did not find valid cassandra hosts'', p1)
         else
           (let snapshot = Snapshot (config p1)
            in case SnapshotHistory E p1 of
                 (Some err, p2) \<Rightarrow> (Some err, p2)
               | (None, p2) \<Rightarrow>
                   (case hist p2 of
                      None \<Rightarrow> (Some ''panic: nil pointer dereference'', p2)
                    | Some h \<Rightarrow>
                        (let (snapshot, p3) =
                               (if snapshot = ''''
                                then (let snapshots = hist_List E h;
                                          p3 = emit (EvHistList snapshots) p2
                                      in if length snapshots > 0
                                         then (snapshots ! (length snapshots - 1), p3)
                                         else (snapshot, p3))
                                else (snapshot, p2))
                         in if snapshot = ''''
                            then (Some ''no existing backup to restore from'', p3)
                            else
                              (let valid = hist_Valid E h snapshot;
                                   p4 = emit (EvHistValid snapshot valid) p3
                               in if \<not> valid
                                  then (Some (snapshot @ '' is not a valid snapshot''), p4)
                                  else case deleteKeyspace E (hosts ! 0) p4 of
                                         (Some err, p5) \<Rightarrow>
                                           (Some (Wrap err ''error deleting keyspace''), p5)
                                       | (None, p5) \<Rightarrow>
                                           (case createSchema E h (hosts ! 0) snapshot p5 of
                                              (Some err, p6) \<Rightarrow>
                                                (Some (Wrap err ''error creating schema''), p6)
                                            | (None, p6) \<Rightarrow>
                                                (case loadSnapshot E h (hosts ! 0) snapshot p6 of
                                                   (Some err, p7) \<Rightarrow>
                                                     (Some (Wrap err ''error loading snapshot''), p7)
                                                 | (None, p7) \<Rightarrow> (None, p7))))))))"

subsection \<open>Observations on traces\<close>

text \<open>
  The predicates below describe traces; they are used to state the properties and are not
  part of the program. \<open>failed\<close> holds of a call that returned an error; \<open>schemaOp\<close>,
  \<open>hostOp\<close> and \<open>restoreOp\<close> classify the calls of the schema phase of a backup, of its
  loop over the hosts, and of the steps of a restore that follow the validation of the
  target.
\<close>

fun failed :: "event \<Rightarrow> bool" where
  "failed (EvS3SnapshotHistory ok) = (\<not> ok)"
| "failed (EvHistKeys s ok) = (\<not> ok)"
| "failed (EvSchemaBackup host ok) = (\<not> ok)"
| "failed (EvS3UploadFile host sfile key ok) = (\<not> ok)"
| "failed (EvSnapshot host ts ok) = (\<not> ok)"
| "failed (EvS3UploadFiles parent ts host ok) = (\<not> ok)"
| "failed (EvDeleteSnapshot host ok) = (\<not> ok)"
| "failed (EvAgentRun host cmd ok) = (\<not> ok)"
| "failed (EvAgentUploadFile host localFile remoteDir ok) = (\<not> ok)"
| "failed (EvS3DownloadKey key dir ok) = (\<not> ok)"
| "failed (EvS3DownloadKeys dir ok) = (\<not> ok)"
| "failed (EvSSTableLoad host ok) = (\<not> ok)"
| "failed _ = False"

fun schemaOp :: "event \<Rightarrow> bool" where
  "schemaOp (EvSchemaBackup host ok) = True"
| "schemaOp (EvS3UploadFile host sfile key ok) = True"
| "schemaOp _ = False"

fun hostOp :: "event \<Rightarrow> bool" where
  "hostOp (EvSnapshot host ts ok) = True"
| "hostOp (EvS3UploadFiles parent ts host ok) = True"
| "hostOp (EvDeleteSnapshot host ok) = True"
| "hostOp _ = False"

fun restoreOp :: "event \<Rightarrow> bool" where
  "restoreOp (EvHistParent s q) = True"
| "restoreOp (EvS3DownloadKey key dir ok) = True"
| "restoreOp (EvAgentUploadFile host localFile remoteDir ok) = True"
| "restoreOp (EvAgentRun host cmd ok) = True"
| "restoreOp (EvHistKeys s ok) = True"
| "restoreOp (EvS3DownloadKeys dir ok) = True"
| "restoreOp (EvSSTableLoad host ok) = True"
| "restoreOp _ = False"

fun isDrop :: "config \<Rightarrow> event \<Rightarrow> bool" where
  "isDrop c (EvAgentRun host cmd ok) = (cmd = deleteKeyspace_cmd c)"
| "isDrop c _ = False"

text \<open>
  A sequence of calls is fail-fast with outcome \<open>ok\<close> when only its last call may have
  failed, and \<open>ok\<close> holds exactly when none has.
\<close>

definition failFast :: "event list \<Rightarrow> bool \<Rightarrow> bool" where
  "failFast evs ok \<longleftrightarrow>
     (\<forall>e \<in> set (butlast evs). \<not> failed e) \<and> (ok \<longleftrightarrow> (\<forall>e \<in> set evs. \<not> failed e))"

text \<open>The parent that \<open>Backup\<close> chooses, and the calls it makes for one host that succeeds.\<close>

definition resolvedParent :: "bool \<Rightarrow> string list \<Rightarrow> string \<Rightarrow> string" where
  "resolvedParent incremental snapshots timestamp =
     (if snapshots \<noteq> [] \<and> incremental then last snapshots else timestamp)"

definition hostSteps :: "string \<Rightarrow> string \<Rightarrow> string \<Rightarrow> event list" where
  "hostSteps parent timestamp host =
     [EvSnapshot host timestamp True, EvS3UploadFiles parent timestamp host True,
      EvDeleteSnapshot host True]"

text \<open>
  The calls made for the host at which the loop stops, with the error that \<open>Backup\<close>
  returns: the name of the step, the host, and the error of the collaborator.
\<close>

definition hostFailure :: "string \<Rightarrow> string \<Rightarrow> string \<Rightarrow> string option \<Rightarrow> event list \<Rightarrow> bool" where
  "hostFailure parent timestamp host r tail \<longleftrightarrow>
     (\<exists>err.
        tail = [EvSnapshot host timestamp False]
          \<and> r = Some (''snapshot @ '' @ host @ '': '' @ err)
      \<or> tail = [EvSnapshot host timestamp True, EvS3UploadFiles parent timestamp host False]
          \<and> r = Some (''upload @ '' @ host @ '': '' @ err)
      \<or> tail = [EvSnapshot host timestamp True, EvS3UploadFiles parent timestamp host True,
                 EvDeleteSnapshot host False]
          \<and> r = Some (''delete @ '' @ host @ '': '' @ err))"

text \<open>
  The trace of the loop over \<open>hosts\<close>: the first \<open>k\<close> hosts complete their three steps in
  the order of the list; either these are all the hosts, or host \<open>k\<close> fails and ends the
  trace.
\<close>

definition hostsTrace ::
  "string \<Rightarrow> string \<Rightarrow> string list \<Rightarrow> string option \<Rightarrow> event list \<Rightarrow> bool" where
  "hostsTrace parent timestamp hosts r hevs \<longleftrightarrow>
     (\<exists>k tail. k \<le> length hosts
        \<and> hevs = concat (map (hostSteps parent timestamp) (take k hosts)) @ tail
        \<and> (if r = None then k = length hosts \<and> tail = []
            else k < length hosts \<and> hostFailure parent timestamp (hosts ! k) r tail))"

text \<open>The trace of \<open>schemaBackup\<close> and of \<open>createSchema\<close>.\<close>

definition schemaTrace :: "string \<Rightarrow> string \<Rightarrow> event list \<Rightarrow> bool \<Rightarrow> bool" where
  "schemaTrace host key sevs ok \<longleftrightarrow>
     (sevs = [EvSchemaBackup host False] \<and> \<not> ok
      \<or> (\<exists>sfile. sevs = [EvSchemaBackup host True, EvS3UploadFile host sfile key ok]))"

definition schemaSteps :: "('h, 'f, 'd, 'k) env \<Rightarrow> 'h \<Rightarrow> config \<Rightarrow> string \<Rightarrow> string \<Rightarrow> event list \<Rightarrow> bool" where
  "schemaSteps E h c host snapshot evs \<longleftrightarrow>
     (\<exists>rest ok. evs = EvHistParent snapshot (hist_Parent E h snapshot)
                  # EvS3DownloadKey (createSchema_key c (hist_Parent E h snapshot) snapshot)
                      (TempDir c @ ''/local'') ok # rest
        \<and> (\<forall>e \<in> set rest. (\<exists>f d b. e = EvAgentUploadFile host f d b)
                            \<or> (\<exists>x b. e = EvAgentRun host (''cat '' @ x) b)))"

text \<open>
  The calls of \<open>loadSnapshot\<close>, and the calls of \<open>Restore\<close> that follow the drop of the
  keyspace: those of \<open>createSchema\<close>, then those of \<open>loadSnapshot\<close>, or a prefix that ends in
  one of the two.
\<close>

definition loadSteps :: "string \<Rightarrow> string \<Rightarrow> event list \<Rightarrow> bool" where
  "loadSteps host snapshot levs \<longleftrightarrow>
     (\<exists>ok rest. levs = EvHistKeys snapshot ok # rest
        \<and> (\<forall>e \<in> set rest. (\<exists>d b. e = EvS3DownloadKeys d b)
               \<or> (\<exists>f d b. e = EvAgentUploadFile host f d b)
               \<or> (\<exists>b. e = EvSSTableLoad host b)))"

definition restoreSteps ::
  "('h, 'f, 'd, 'k) env \<Rightarrow> 'h \<Rightarrow> config \<Rightarrow> string \<Rightarrow> string \<Rightarrow> event list \<Rightarrow> bool" where
  "restoreSteps E h c host snapshot post \<longleftrightarrow>
     post = []
     \<or> (\<exists>sevs levs. post = sevs @ levs \<and> schemaSteps E h c host snapshot sevs
           \<and> (levs = [] \<or> loadSteps host snapshot levs))"

text \<open>The target that \<open>Restore\<close> chooses; the empty string stands for no target.\<close>

definition resolvedTarget :: "string \<Rightarrow> string list \<Rightarrow> string" where
  "resolvedTarget explicit snapshots =
     (if explicit \<noteq> '''' then explicit
      else if snapshots \<noteq> [] then last snapshots else '''')"

subsection \<open>Sample collaborators\<close>

text \<open>
  A concrete set of collaborators on which the properties are evaluated: two hosts, a
  history that holds one full backup, and calls that all succeed. The history is a list
  of pairs of a timestamp and its parent. The variants change the clock or let one call
  fail.
\<close>

definition env0 :: "((string \<times> string) list, unit, unit, unit) env" where
  "env0 = \<lparr>
     cassandra_Hosts = (\<lambda>p. [''h1'', ''h2'']),
     cassandra_SchemaBackup = (\<lambda>p host. Inr ''s.cql''),
     cassandra_Snapshot = (\<lambda>p host ts. Inr ((), ())),
     cassandra_deleteSnapshot = (\<lambda>p host dirs. None),
     cassandra_sstableload = (\<lambda>p host dirs. None),
     s3_SnapshotHistory = (\<lambda>p. Inr [(''2024-01-01_000000'', ''2024-01-01_000000'')]),
     s3_UploadFile = (\<lambda>p host sfile key. None),
     s3_UploadFiles = (\<lambda>p parent ts host files. None),
     s3_downloadKey = (\<lambda>p key dir. Inr ''l.gz''),
     s3_downloadKeys = (\<lambda>p keys dir. Inr [(''a/k1'', ''f1''), (''a/k2'', ''f2'')]),
     agent_Run = (\<lambda>p host cmd. Inr ''''),
     agent_UploadFile = (\<lambda>p host localFile dir. None),
     hist_List = map fst,
     hist_Valid = (\<lambda>h s. s \<in> set (map fst h)),
     hist_Parent = (\<lambda>h s. case map_of h s of Some q \<Rightarrow> q | None \<Rightarrow> s),
     hist_Keys = (\<lambda>h s. Inr ()),
     time_Now = (\<lambda>p. ''2024-01-02_000000''),
     path_Dir = (\<lambda>s. rev (tl (dropWhile (\<lambda>c. c \<noteq> CHR ''/'') (rev s)))),
     path_Join = (\<lambda>a b. a @ b)
   \<rparr>"

definition envOld :: "((string \<times> string) list, unit, unit, unit) env" where
  "envOld = env0\<lparr>time_Now := (\<lambda>p. ''2023-12-31_000000'')\<rparr>"

definition envSame :: "((string \<times> string) list, unit, unit, unit) env" where
  "envSame = env0\<lparr>time_Now := (\<lambda>p. ''2024-01-01_000000'')\<rparr>"

definition envEmpty :: "((string \<times> string) list, unit, unit, unit) env" where
  "envEmpty = env0\<lparr>s3_SnapshotHistory := (\<lambda>p. Inr [])\<rparr>"

definition envSchemaFail :: "((string \<times> string) list, unit, unit, unit) env" where
  "envSchemaFail = env0\<lparr>s3_UploadFile := (\<lambda>p host sfile key. Some ''denied'')\<rparr>"

definition envHostFail :: "((string \<times> string) list, unit, unit, unit) env" where
  "envHostFail =
     env0\<lparr>s3_UploadFiles :=
            (\<lambda>p parent ts host files. if host = ''h2'' then Some ''timeout'' else None)\<rparr>"

definition envLoadFail :: "((string \<times> string) list, unit, unit, unit) env" where
  "envLoadFail = env0\<lparr>cassandra_sstableload := (\<lambda>p host dirs. Some ''refused'')\<rparr>"

definition cfg0 :: config where
  "cfg0 = \<lparr>AwsBasePath = ''b'', Keyspace = ''ks'', Incremental = True, Snapshot = '''',
           CqlshPath = ''cqlsh'', TempDir = ''/tmp''\<rparr>"

definition p0 :: "(string \<times> string) list priam" where
  "p0 = \<lparr>config = cfg0, hist = None, trace = []\<rparr>"

section \<open>Properties\<close>

subsection \<open>State and trace of the helpers\<close>

lemma trace_emit [simp]: "trace (emit e p) = trace p @ [e]"
  and config_emit [simp]: "config (emit e p) = config p"
  and hist_emit [simp]: "hist (emit e p) = hist p"
  by (simp_all add: emit_def)

lemma ex_bool [simp]: "\<exists>b::bool. b" "\<exists>b. \<not> b"
  by blast+

lemma Incremental_same [simp]: "c\<lparr>Incremental := Incremental c\<rparr> = (c::config)"
  by simp

lemma schemaBackup_key_Incremental [simp]:
  "schemaBackup_key (c\<lparr>Incremental := b\<rparr>) parent ts = schemaBackup_key c parent ts"
  by (simp add: schemaBackup_key_def)

lemma failFast_Nil [simp]: "failFast [] ok \<longleftrightarrow> ok"
  by (simp add: failFast_def)

lemma failFast_single [simp]: "failFast [e] ok \<longleftrightarrow> (ok \<longleftrightarrow> \<not> failed e)"
  by (simp add: failFast_def)

lemma failFast_append: "failFast xs True \<Longrightarrow> failFast ys ok \<Longrightarrow> failFast (xs @ ys) ok"
  by (cases "ys = []") (auto simp: failFast_def butlast_append dest: in_set_butlastD)

lemma failFast_Cons: "\<not> failed e \<Longrightarrow> failFast ys ok \<Longrightarrow> failFast (e # ys) ok"
  using failFast_append [of "[e]" ys ok] by simp

lemma cat_not_drop [simp]: "''cat '' @ x \<noteq> deleteKeyspace_cmd c"
  by (simp add: deleteKeyspace_cmd_def)

lemma SnapshotHistory_ok:
  assumes "SnapshotHistory E p = (None, p')"
  shows "\<exists>h load. hist p' = Some h \<and> config p' = config p \<and> trace p' = trace p @ load
           \<and> (load = [] \<and> hist p = Some h
                \<or> load = [EvS3SnapshotHistory True] \<and> hist p = None)"
  using assms by (auto simp: SnapshotHistory_def split: sum.splits if_splits)

lemma SnapshotHistory_fail:
  assumes "SnapshotHistory E p = (Some e, p')"
  shows "hist p = None \<and> p' = emit (EvS3SnapshotHistory False) p
           \<and> (\<exists>err. e = Wrap err ''error getting snapshot history'')"
  using assms by (auto simp: SnapshotHistory_def split: sum.splits if_splits)

lemma schemaBackup_cases [consumes 1, case_names DumpFailed UploadFailed Uploaded]:
  assumes "schemaBackup E parent ts host p = (r, p')"
  obtains
    (DumpFailed) err where "r = Some (Wrap err ''schema backup'')"
      "p' = emit (EvSchemaBackup host False) p"
  | (UploadFailed) sfile err where "r = Some (Wrap err (''schema upload @ '' @ host))"
      "p' = emit (EvS3UploadFile host sfile (schemaBackup_key (config p) parent ts) False)
              (emit (EvSchemaBackup host True) p)"
  | (Uploaded) sfile where "r = None"
      "p' = emit (EvS3UploadFile host sfile (schemaBackup_key (config p) parent ts) True)
              (emit (EvSchemaBackup host True) p)"
  using assms
  by (auto simp: schemaBackup_def Let_def split: sum.splits option.splits)

lemma backupHosts_frame:
  "backupHosts E parent ts hosts p = (r, p') \<Longrightarrow> config p' = config p \<and> hist p' = hist p"
  by (induction hosts arbitrary: p) (auto simp: Let_def split: sum.splits option.splits prod.splits)

lemma backupHosts_run:
  assumes "backupHosts E parent ts hosts p = (r, p')"
  shows "\<exists>k tail. k \<le> length hosts
           \<and> trace p' = trace p @ concat (map (hostSteps parent ts) (take k hosts)) @ tail
           \<and> (if r = None then k = length hosts \<and> tail = []
               else k < length hosts \<and> hostFailure parent ts (hosts ! k) r tail)"
  using assms
proof (induction hosts arbitrary: p)
  case Nil
  then show ?case by simp
next
  case (Cons host hosts)
  show ?case
  proof (cases "cassandra_Snapshot E p host ts")
    case (Inl err)
    with Cons.prems have "r = Some (Wrap err (''snapshot @ '' @ host))"
      and "trace p' = trace p @ [EvSnapshot host ts False]" by auto
    then have "0 \<le> length (host # hosts)
           \<and> trace p' = trace p @ concat (map (hostSteps parent ts) (take 0 (host # hosts))) @ [EvSnapshot host ts False]
           \<and> (if r = None then 0 = length (host # hosts) \<and> [EvSnapshot host ts False] = []
               else 0 < length (host # hosts) \<and> hostFailure parent ts ((host # hosts) ! 0) r [EvSnapshot host ts False])"
      by (simp add: hostFailure_def Wrap_def)
    then show ?thesis by blast
  next
    case (Inr fd)
    obtain files dirs where fd: "fd = (files, dirs)" by (cases fd)
    define p1 where "p1 = emit (EvSnapshot host ts True) p"
    show ?thesis
    proof (cases "s3_UploadFiles E p1 parent ts host files")
      case (Some err)
      with Cons.prems Inr fd p1_def have "r = Some (Wrap err (''upload @ '' @ host))"
        and "trace p' = trace p @ [EvSnapshot host ts True, EvS3UploadFiles parent ts host False]"
        by auto
      then have "0 \<le> length (host # hosts)
           \<and> trace p' = trace p @ concat (map (hostSteps parent ts) (take 0 (host # hosts)))
                 @ [EvSnapshot host ts True, EvS3UploadFiles parent ts host False]
           \<and> (if r = None then 0 = length (host # hosts)
                    \<and> [EvSnapshot host ts True, EvS3UploadFiles parent ts host False] = []
               else 0 < length (host # hosts)
                    \<and> hostFailure parent ts ((host # hosts) ! 0) r
                         [EvSnapshot host ts True, EvS3UploadFiles parent ts host False])"
        by (simp add: hostFailure_def Wrap_def)
      then show ?thesis by blast
    next
      case None
      define p2 where "p2 = emit (EvS3UploadFiles parent ts host True) p1"
      show ?thesis
      proof (cases "cassandra_deleteSnapshot E p2 host dirs")
        case (Some err)
        with Cons.prems Inr fd p1_def None p2_def
        have "r = Some (Wrap err (''delete @ '' @ host))"
          and "trace p' = trace p @ [EvSnapshot host ts True, EvS3UploadFiles parent ts host True,
                 EvDeleteSnapshot host False]"
          by auto
        then have "0 \<le> length (host # hosts)
           \<and> trace p' = trace p @ concat (map (hostSteps parent ts) (take 0 (host # hosts)))
                 @ [EvSnapshot host ts True, EvS3UploadFiles parent ts host True,
                    EvDeleteSnapshot host False]
           \<and> (if r = None then 0 = length (host # hosts)
                    \<and> [EvSnapshot host ts True, EvS3UploadFiles parent ts host True,
                        EvDeleteSnapshot host False] = []
               else 0 < length (host # hosts)
                    \<and> hostFailure parent ts ((host # hosts) ! 0) r
                         [EvSnapshot host ts True, EvS3UploadFiles parent ts host True,
                          EvDeleteSnapshot host False])"
          by (simp add: hostFailure_def Wrap_def)
        then show ?thesis by blast
      next
        case delNone: None
        define p3 where "p3 = emit (EvDeleteSnapshot host True) p2"
        from Cons.prems Inr fd p1_def None p2_def delNone p3_def
        have rec: "backupHosts E parent ts hosts p3 = (r, p')" by simp
        from Cons.IH [OF rec] obtain k tail where k: "k \<le> length hosts"
          and tr: "trace p' = trace p3 @ concat (map (hostSteps parent ts) (take k hosts)) @ tail"
          and res: "if r = None then k = length hosts \<and> tail = []
                    else k < length hosts \<and> hostFailure parent ts (hosts ! k) r tail"
          by blast
        have "trace p3 = trace p @ hostSteps parent ts host"
          by (simp add: p3_def p2_def p1_def hostSteps_def)
        with k tr res have "Suc k \<le> length (host # hosts)
           \<and> trace p' = trace p @ concat (map (hostSteps parent ts) (take (Suc k) (host # hosts))) @ tail
           \<and> (if r = None then Suc k = length (host # hosts) \<and> tail = []
               else Suc k < length (host # hosts)
                    \<and> hostFailure parent ts ((host # hosts) ! Suc k) r tail)"
          by (simp split: if_splits)
        then show ?thesis by blast
      qed
    qed
  qed
qed

lemma deleteKeyspace_run:
  assumes "deleteKeyspace E host p = (r, p')"
  shows "\<exists>ok. p' = emit (EvAgentRun host (deleteKeyspace_cmd (config p)) ok) p \<and> (r = None \<longleftrightarrow> ok)"
  using assms by (auto simp: deleteKeyspace_def Let_def split: sum.splits)

lemma createSchema_run:
  assumes "createSchema E h host snapshot p = (r, p')"
  shows "config p' = config p \<and> hist p' = hist p
           \<and> (\<exists>evs. trace p' = trace p @ evs \<and> schemaSteps E h (config p) host snapshot evs
                  \<and> failFast evs (r = None))"
  using assms
  by (auto simp: createSchema_def Let_def schemaSteps_def failFast_def
           split: sum.splits option.splits)

lemma uploadFilesLoop_run:
  assumes "uploadFilesLoop E host rtd files dirs0 p = (r, p')"
  shows "config p' = config p \<and> hist p' = hist p
           \<and> (\<exists>evs. trace p' = trace p @ evs
                  \<and> (\<forall>e \<in> set evs. \<exists>f d b. e = EvAgentUploadFile host f d b)
                  \<and> failFast evs (\<not> isl r))"
  using assms
proof (induction files arbitrary: dirs0 p)
  case Nil
  then show ?case by auto
next
  case (Cons kf files)
  obtain key localFile where kf: "kf = (key, localFile)" by (cases kf)
  let ?d = "path_Dir E (rtd @ ''/'' @ key)"
  show ?case
  proof (cases "agent_UploadFile E p host localFile ?d")
    case (Some err)
    with Cons.prems kf show ?thesis by (auto simp: Let_def)
  next
    case None
    let ?p1 = "emit (EvAgentUploadFile host localFile ?d True) p"
    from Cons.prems kf None
    have "uploadFilesLoop E host rtd files (dirs0(?d \<mapsto> True)) ?p1 = (r, p')"
      by (simp add: Let_def)
    from Cons.IH [OF this] obtain evs where "config p' = config p" "hist p' = hist p"
      "trace p' = trace p @ EvAgentUploadFile host localFile ?d True # evs"
      "\<forall>e \<in> set evs. \<exists>f d b. e = EvAgentUploadFile host f d b" "failFast evs (\<not> isl r)"
      by auto
    then show ?thesis
      by (intro conjI exI [of _ "EvAgentUploadFile host localFile ?d True # evs"])
         (auto intro: failFast_Cons)
  qed
qed

lemma loadSnapshot_run:
  assumes "loadSnapshot E h host snapshot p = (r, p')"
  shows "config p' = config p \<and> hist p' = hist p
           \<and> (\<exists>evs ok. trace p' = trace p @ EvHistKeys snapshot ok # evs
                  \<and> (\<forall>e \<in> set evs. (\<exists>d b. e = EvS3DownloadKeys d b)
                         \<or> (\<exists>f d b. e = EvAgentUploadFile host f d b)
                         \<or> (\<exists>b. e = EvSSTableLoad host b))
                  \<and> failFast (EvHistKeys snapshot ok # evs) (r = None))"
proof (cases "hist_Keys E h snapshot")
  case (Inl err)
  with assms have "r \<noteq> None" "p' = emit (EvHistKeys snapshot False) p"
    by (auto simp: loadSnapshot_def Let_def)
  then have "config p' = config p" "hist p' = hist p"
    "trace p' = trace p @ EvHistKeys snapshot False # []"
    "\<forall>e \<in> set []. (\<exists>d b. e = EvS3DownloadKeys d b)
                         \<or> (\<exists>f d b. e = EvAgentUploadFile host f d b)
                         \<or> (\<exists>b. e = EvSSTableLoad host b)"
    "failFast (EvHistKeys snapshot False # []) (r = None)"
    by simp_all
  then show ?thesis by blast
next
  case (Inr keys)
  let ?p1 = "emit (EvHistKeys snapshot True) p"
  let ?l = "TempDir (config p) @ ''/local''"
  show ?thesis
  proof (cases "s3_downloadKeys E ?p1 keys ?l")
    case (Inl err)
    with assms Inr have "r \<noteq> None" "p' = emit (EvS3DownloadKeys ?l False) ?p1"
      by (auto simp: loadSnapshot_def Let_def)
    then have "config p' = config p" "hist p' = hist p"
      "trace p' = trace p @ EvHistKeys snapshot True # [EvS3DownloadKeys ?l False]"
      "\<forall>e \<in> set [EvS3DownloadKeys ?l False]. (\<exists>d b. e = EvS3DownloadKeys d b)
                         \<or> (\<exists>f d b. e = EvAgentUploadFile host f d b)
                         \<or> (\<exists>b. e = EvSSTableLoad host b)"
      "failFast (EvHistKeys snapshot True # [EvS3DownloadKeys ?l False]) (r = None)"
      by (auto simp: failFast_def)
    then show ?thesis by blast
  next
    case dl: (Inr files)
    let ?p2 = "emit (EvS3DownloadKeys ?l True) ?p1"
    obtain ru p3 where up: "uploadFilesToHost E host (TempDir (config p) @ ''/remote'') files ?p2 = (ru, p3)"
      by fastforce
    from uploadFilesLoop_run [OF up [unfolded uploadFilesToHost_def]]
    obtain uevs where c3: "config p3 = config p" and h3: "hist p3 = hist p"
      and t3: "trace p3 = trace p @ EvHistKeys snapshot True # EvS3DownloadKeys ?l True # uevs"
      and u: "\<forall>e \<in> set uevs. \<exists>f d b. e = EvAgentUploadFile host f d b"
      and ff: "failFast uevs (\<not> isl ru)"
      by (elim conjE exE) simp
    show ?thesis
    proof (cases ru)
      case (Inl err)
      with assms Inr dl up have r: "r \<noteq> None" and p': "p' = p3"
        by (auto simp: loadSnapshot_def Let_def)
      from ff Inl have "failFast (EvHistKeys snapshot True # EvS3DownloadKeys ?l True # uevs) False"
        by (intro failFast_Cons) simp_all
      with r have ff': "failFast (EvHistKeys snapshot True # EvS3DownloadKeys ?l True # uevs) (r = None)"
        by auto
      from u have u': "\<forall>e \<in> set (EvS3DownloadKeys ?l True # uevs). (\<exists>d b. e = EvS3DownloadKeys d b)
                         \<or> (\<exists>f d b. e = EvAgentUploadFile host f d b)
                         \<or> (\<exists>b. e = EvSSTableLoad host b)"
        by auto
      show ?thesis unfolding p' using c3 h3 t3 u' ff' by blast
    next
      case ok: (Inr dirs)
      from assms Inr dl up ok obtain b where p': "p' = emit (EvSSTableLoad host b) p3"
        and rb: "r = None \<longleftrightarrow> b"
        by (auto simp: loadSnapshot_def Let_def split: option.splits)
      from ff ok have "failFast ([EvHistKeys snapshot True, EvS3DownloadKeys ?l True] @ uevs) True"
        by (simp, intro failFast_Cons) simp_all
      from failFast_append [OF this, of "[EvSSTableLoad host b]" b]
      have ff': "failFast (EvHistKeys snapshot True # EvS3DownloadKeys ?l True # uevs @ [EvSSTableLoad host b]) (r = None)"
        using rb by simp
      from u have u': "\<forall>e \<in> set (EvS3DownloadKeys ?l True # uevs @ [EvSSTableLoad host b]).
                         (\<exists>d b. e = EvS3DownloadKeys d b)
                         \<or> (\<exists>f d b. e = EvAgentUploadFile host f d b)
                         \<or> (\<exists>b. e = EvSSTableLoad host b)"
        by auto
      have t': "trace p' = trace p @ EvHistKeys snapshot True # EvS3DownloadKeys ?l True # uevs @ [EvSSTableLoad host b]"
        by (simp add: p' t3)
      have "config p' = config p" "hist p' = hist p" by (simp_all add: p' c3 h3)
      with t' u' ff' show ?thesis by blast
    qed
  qed
qed

subsection \<open>The runs of \<open>Backup\<close>\<close>

lemma Backup_cases [consumes 1, case_names NoHosts HistoryFailed NonMonotonic Schema]:
  assumes "Backup E p = (r, p')"
  obtains
    (NoHosts) "r = Some ''unable to get any cassandra hosts''" "p' = emit (EvHosts []) p"
  | (HistoryFailed) hosts err where "hosts \<noteq> []" "hist p = None"
      "r = Some (Wrap (Wrap err ''error getting snapshot history'')
                   ''error getting snapshot history'')"
      "p' = emit (EvS3SnapshotHistory False) (emit (EvHosts hosts) p)"
  | (NonMonotonic) hosts load h ts snaps where "hosts \<noteq> []"
      "load = [] \<and> hist p = Some h \<or> load = [EvS3SnapshotHistory True] \<and> hist p = None"
      "snaps \<noteq> []" "ts < last snaps"
      "r = Some (''new timestamp '' @ ts @ '' less than last'')"
      "trace p' = trace p @ [EvHosts hosts] @ load @ [EvNow ts, EvHistList snaps]"
      "config p' = config p" "hist p' = Some h"
  | (Schema) hosts load h ts snaps p5 rs p6 where "hosts \<noteq> []"
      "load = [] \<and> hist p = Some h \<or> load = [EvS3SnapshotHistory True] \<and> hist p = None"
      "\<not> (snaps \<noteq> [] \<and> ts < last snaps)"
      "trace p5 = trace p @ [EvHosts hosts] @ load @ [EvNow ts, EvHistList snaps]"
      "config p5 = (config p)\<lparr>Incremental := (snaps \<noteq> [] \<and> Incremental (config p))\<rparr>"
      "hist p5 = Some h"
      "schemaBackup E (resolvedParent (Incremental (config p)) snaps ts) ts (hd hosts) p5 = (rs, p6)"
      "case rs of Some err \<Rightarrow> r = Some (Wrap err ''schema backup failed'') \<and> p' = p6
                | None \<Rightarrow> backupHosts E (resolvedParent (Incremental (config p)) snaps ts) ts hosts p6
                           = (r, p')"
proof -
  define hosts where "hosts = cassandra_Hosts E p"
  define p1 where "p1 = emit (EvHosts hosts) p"
  show thesis
  proof (cases "hosts = []")
    case True
    with assms have "r = Some ''unable to get any cassandra hosts''" "p' = emit (EvHosts []) p"
      by (simp_all add: Backup_def hosts_def Let_def)
    then show thesis by (rule NoHosts)
  next
    case ne: False
    obtain rh p2 where sh: "SnapshotHistory E p1 = (rh, p2)" by fastforce
    show thesis
    proof (cases rh)
      case (Some e)
      from SnapshotHistory_fail [OF sh [unfolded Some]]
      obtain err where "hist p = None" "p2 = emit (EvS3SnapshotHistory False) p1"
        "e = Wrap err ''error getting snapshot history''"
        by (auto simp: p1_def)
      moreover from assms ne sh Some have "r = Some (Wrap e ''error getting snapshot history'')" "p' = p2"
        by (simp_all add: Backup_def hosts_def [symmetric] p1_def [symmetric] Let_def)
      ultimately show thesis using ne by (intro HistoryFailed [of hosts err]) (simp_all add: p1_def)
    next
      case None
      from SnapshotHistory_ok [OF sh [unfolded None]]
      obtain h load where h: "hist p2 = Some h" and c2: "config p2 = config p"
        and t2: "trace p2 = trace p @ [EvHosts hosts] @ load"
        and load: "load = [] \<and> hist p = Some h \<or> load = [EvS3SnapshotHistory True] \<and> hist p = None"
        by (auto simp: p1_def)
      define ts where "ts = time_Now E p2"
      define snaps where "snaps = hist_List E h"
      let ?p4 = "emit (EvHistList snaps) (emit (EvNow ts) p2)"
      have t4: "trace ?p4 = trace p @ [EvHosts hosts] @ load @ [EvNow ts, EvHistList snaps]"
        by (simp add: t2)
      have c4: "config ?p4 = config p" and h4: "hist ?p4 = Some h"
        by (simp_all add: c2 h)
      have lastn: "snaps \<noteq> [] \<Longrightarrow> snaps ! (length snaps - 1) = last snaps"
        by (simp add: last_conv_nth)
      show thesis
      proof (cases "snaps \<noteq> [] \<and> ts < last snaps")
        case True
        with assms ne sh None h lastn
        have "r = Some (''new timestamp '' @ ts @ '' less than last'')" "p' = ?p4"
          by (simp_all add: Backup_def hosts_def [symmetric] p1_def [symmetric] Let_def
                NewTimestamp_def ts_def [symmetric] snaps_def [symmetric])
        with True t4 c4 h4 ne load show thesis
          by (intro NonMonotonic [of hosts load h snaps ts]) simp_all
      next
        case mono: False
        let ?parent = "resolvedParent (Incremental (config p)) snaps ts"
        let ?p5 = "if snaps \<noteq> [] \<and> Incremental (config p) then ?p4
                 else ?p4\<lparr>config := (config ?p4)\<lparr>Incremental := False\<rparr>\<rparr>"
        obtain rs p6 where sb: "schemaBackup E ?parent ts (hd hosts) ?p5 = (rs, p6)" by fastforce
        have hd0: "hosts ! 0 = hd hosts" using ne by (simp add: hd_conv_nth)
        have t5: "trace ?p5 = trace p @ [EvHosts hosts] @ load @ [EvNow ts, EvHistList snaps]"
          and h5: "hist ?p5 = Some h"
          and c5: "config ?p5 = (config p)\<lparr>Incremental := (snaps \<noteq> [] \<and> Incremental (config p))\<rparr>"
          using t4 h4 c4 by auto
        have body: "Backup E p =
            (case schemaBackup E ?parent ts (hd hosts) ?p5 of
               (Some err, p6) \<Rightarrow> (Some (Wrap err ''schema backup failed''), p6)
             | (None, p6) \<Rightarrow> backupHosts E ?parent ts hosts p6)"
        proof (cases "snaps \<noteq> [] \<and> Incremental (config p)")
          case True
          then have par: "?parent = last snaps" by (simp add: resolvedParent_def)
          from True ne sh None h lastn mono hd0 c2 show ?thesis
            unfolding par
            by (simp add: Backup_def hosts_def [symmetric] p1_def [symmetric] Let_def
                NewTimestamp_def ts_def [symmetric] snaps_def [symmetric])
        next
          case False
          then have par: "?parent = ts" by (auto simp add: resolvedParent_def)
          from False ne sh None h lastn mono hd0 c2 show ?thesis
            unfolding par
            by (auto simp add: Backup_def hosts_def [symmetric] p1_def [symmetric] Let_def
                NewTimestamp_def ts_def [symmetric] snaps_def [symmetric])
        qed
        have "case rs of Some err \<Rightarrow> r = Some (Wrap err ''schema backup failed'') \<and> p' = p6
                | None \<Rightarrow> backupHosts E ?parent ts hosts p6 = (r, p')"
          using assms sb unfolding body by (auto split: option.splits)
        with ne load mono t5 c5 h5 sb show thesis
          by (rule Schema)
      qed
    qed
  qed
qed

lemma Backup_run [consumes 1, case_names NoHosts HistoryFailed NonMonotonic Proceeded]:
  assumes "Backup E p = (r, p')"
  obtains
    (NoHosts) "r = Some ''unable to get any cassandra hosts''" "trace p' = trace p @ [EvHosts []]"
      "config p' = config p" "hist p' = hist p"
  | (HistoryFailed) hosts err where "hosts \<noteq> []" "hist p = None"
      "r = Some (Wrap (Wrap err ''error getting snapshot history'')
                   ''error getting snapshot history'')"
      "trace p' = trace p @ [EvHosts hosts, EvS3SnapshotHistory False]"
      "config p' = config p" "hist p' = None"
  | (NonMonotonic) hosts load h ts snaps where "hosts \<noteq> []"
      "load = [] \<and> hist p = Some h \<or> load = [EvS3SnapshotHistory True] \<and> hist p = None"
      "snaps \<noteq> []" "ts < last snaps"
      "r = Some (''new timestamp '' @ ts @ '' less than last'')"
      "trace p' = trace p @ [EvHosts hosts] @ load @ [EvNow ts, EvHistList snaps]"
      "config p' = config p" "hist p' = Some h"
  | (Proceeded) hosts load h ts snaps sevs sok hevs where "hosts \<noteq> []"
      "load = [] \<and> hist p = Some h \<or> load = [EvS3SnapshotHistory True] \<and> hist p = None"
      "\<not> (snaps \<noteq> [] \<and> ts < last snaps)"
      "trace p' = trace p @ [EvHosts hosts] @ load @ [EvNow ts, EvHistList snaps] @ sevs @ hevs"
      "config p' = (config p)\<lparr>Incremental := (snaps \<noteq> [] \<and> Incremental (config p))\<rparr>"
      "hist p' = Some h"
      "schemaTrace (hd hosts)
         (schemaBackup_key (config p) (resolvedParent (Incremental (config p)) snaps ts) ts) sevs sok"
      "\<not> sok \<Longrightarrow> hevs = [] \<and> (\<exists>err. r = Some (Wrap err ''schema backup failed''))"
      "sok \<Longrightarrow> hostsTrace (resolvedParent (Incremental (config p)) snaps ts) ts hosts r hevs"
  using assms
proof (cases rule: Backup_cases)
  case NoHosts
  then show ?thesis by (intro that(1)) simp_all
next
  case (HistoryFailed hosts err)
  then show ?thesis by (intro that(2) [of hosts err]) simp_all
next
  case (NonMonotonic hosts load h ts snaps)
  then show ?thesis by (intro that(3) [of hosts load h snaps ts]) simp_all
next
  case (Schema hosts load h ts snaps p5 rs p6)
  let ?parent = "resolvedParent (Incremental (config p)) snaps ts"
  let ?key = "schemaBackup_key (config p) ?parent ts"
  from Schema(7) show ?thesis
  proof (cases rule: schemaBackup_cases)
    case (DumpFailed err)
    with Schema have "trace p' = trace p @ [EvHosts hosts] @ load @ [EvNow ts, EvHistList snaps]
                         @ [EvSchemaBackup (hd hosts) False] @ []"
      "config p' = (config p)\<lparr>Incremental := (snaps \<noteq> [] \<and> Incremental (config p))\<rparr>"
      "hist p' = Some h"
      "schemaTrace (hd hosts) ?key [EvSchemaBackup (hd hosts) False] False"
      "\<exists>err. r = Some (Wrap err ''schema backup failed'')"
      by (auto simp: schemaTrace_def)
    with Schema(1-3) show ?thesis
      by (intro that(4) [where sevs = "[EvSchemaBackup (hd hosts) False]" and sok = False and hevs = "[]"])
        simp_all
  next
    case (UploadFailed sfile err)
    with Schema have "trace p' = trace p @ [EvHosts hosts] @ load @ [EvNow ts, EvHistList snaps]
                         @ [EvSchemaBackup (hd hosts) True, EvS3UploadFile (hd hosts) sfile ?key False] @ []"
      "config p' = (config p)\<lparr>Incremental := (snaps \<noteq> [] \<and> Incremental (config p))\<rparr>"
      "hist p' = Some h"
      "schemaTrace (hd hosts) ?key
         [EvSchemaBackup (hd hosts) True, EvS3UploadFile (hd hosts) sfile ?key False] False"
      "\<exists>err. r = Some (Wrap err ''schema backup failed'')"
      by (auto simp: schemaTrace_def)
    with Schema(1-3) show ?thesis
      by (intro that(4) [where sevs = "[EvSchemaBackup (hd hosts) True, EvS3UploadFile (hd hosts) sfile ?key False]"
            and sok = False and hevs = "[]"])
        simp_all
  next
    case (Uploaded sfile)
    with Schema have loop: "backupHosts E ?parent ts hosts p6 = (r, p')" by simp
    from backupHosts_run [OF loop] obtain hevs where
      "trace p' = trace p6 @ hevs" "hostsTrace ?parent ts hosts r hevs"
      unfolding hostsTrace_def by blast
    moreover from backupHosts_frame [OF loop] have "config p' = config p6" "hist p' = hist p6"
      by simp_all
    ultimately have "trace p' = trace p @ [EvHosts hosts] @ load @ [EvNow ts, EvHistList snaps]
                         @ [EvSchemaBackup (hd hosts) True, EvS3UploadFile (hd hosts) sfile ?key True] @ hevs"
      "config p' = (config p)\<lparr>Incremental := (snaps \<noteq> [] \<and> Incremental (config p))\<rparr>"
      "hist p' = Some h"
      "schemaTrace (hd hosts) ?key
         [EvSchemaBackup (hd hosts) True, EvS3UploadFile (hd hosts) sfile ?key True] True"
      "hostsTrace ?parent ts hosts r hevs"
      using Schema Uploaded by (auto simp: schemaTrace_def)
    with Schema(1-3) show ?thesis
      by (intro that(4) [where sevs = "[EvSchemaBackup (hd hosts) True, EvS3UploadFile (hd hosts) sfile ?key True]"
            and sok = True and hevs = hevs])
        simp_all
  qed
qed

lemma hostsTrace_events:
  assumes "hostsTrace parent ts hosts r hevs" and "e \<in> set hevs"
  shows "(\<exists>host ok. e = EvSnapshot host ts ok) \<or> (\<exists>host ok. e = EvS3UploadFiles parent ts host ok)
           \<or> (\<exists>host ok. e = EvDeleteSnapshot host ok)"
  using assms unfolding hostsTrace_def hostFailure_def hostSteps_def
  by (auto split: if_splits)

lemma schemaTrace_events:
  assumes "schemaTrace host key sevs sok" and "e \<in> set sevs"
  shows "(\<exists>ok. e = EvSchemaBackup host ok) \<or> (\<exists>sfile ok. e = EvS3UploadFile host sfile key ok)"
  using assms unfolding schemaTrace_def by auto

lemma hostsTrace_hostOp: "hostsTrace parent ts hosts r hevs \<Longrightarrow> e \<in> set hevs \<Longrightarrow> hostOp e"
  by (auto dest: hostsTrace_events)

lemma schemaTrace_schemaOp: "schemaTrace host key sevs sok \<Longrightarrow> e \<in> set sevs \<Longrightarrow> schemaOp e"
  by (auto dest: schemaTrace_events)

lemma Backup_evs:
  assumes "Backup E p = (r, p')" and "trace p' = trace p @ evs"
    and "EvNow ts \<in> set evs" and "EvHistList snaps \<in> set evs"
  obtains
    (NonMonotonic) hosts load where
      "snaps \<noteq> []" "ts < last snaps"
      "r = Some (''new timestamp '' @ ts @ '' less than last'')"
      "evs = [EvHosts hosts] @ load @ [EvNow ts, EvHistList snaps]"
      "load = [] \<or> load = [EvS3SnapshotHistory True]"
      "config p' = config p"
  | (Proceeded) hosts load sevs sok hevs where "hosts \<noteq> []"
      "load = [] \<or> load = [EvS3SnapshotHistory True]"
      "\<not> (snaps \<noteq> [] \<and> ts < last snaps)"
      "evs = [EvHosts hosts] @ load @ [EvNow ts, EvHistList snaps] @ sevs @ hevs"
      "config p' = (config p)\<lparr>Incremental := (snaps \<noteq> [] \<and> Incremental (config p))\<rparr>"
      "schemaTrace (hd hosts)
         (schemaBackup_key (config p) (resolvedParent (Incremental (config p)) snaps ts) ts) sevs sok"
      "\<not> sok \<Longrightarrow> hevs = [] \<and> (\<exists>err. r = Some (Wrap err ''schema backup failed''))"
      "sok \<Longrightarrow> hostsTrace (resolvedParent (Incremental (config p)) snaps ts) ts hosts r hevs"
  using assms(1)
proof (cases rule: Backup_run)
  case NoHosts
  with assms show ?thesis by auto
next
  case (HistoryFailed hosts err)
  with assms show ?thesis by auto
next
  case (NonMonotonic hosts load h ts' snaps')
  with assms have "ts' = ts" "snaps' = snaps" by auto
  with NonMonotonic assms(2) show ?thesis
    by (intro that(1) [where hosts = hosts and load = load]) auto
next
  case (Proceeded hosts load h ts' snaps' sevs sok hevs)
  from Proceeded(4) assms(2)
  have evs: "evs = [EvHosts hosts] @ load @ [EvNow ts', EvHistList snaps'] @ sevs @ hevs"
    by simp
  have hev: "hostOp e" if "e \<in> set hevs" for e
  proof (cases sok)
    case True
    from hostsTrace_hostOp [OF Proceeded(9) [OF True] that] show ?thesis .
  next
    case False
    with Proceeded(8) that show ?thesis by simp
  qed
  have sev: "schemaOp e" if "e \<in> set sevs" for e
    using schemaTrace_schemaOp [OF Proceeded(7) that] .
  have "ts' = ts \<and> snaps' = snaps"
    using assms(3,4) Proceeded(2) unfolding evs
    by (auto dest: hev sev)
  then show ?thesis using Proceeded evs
    by (intro that(2) [where hosts = hosts and load = load and sevs = sevs and sok = sok and hevs = hevs])
       auto
qed

lemma Backup_evs_ops:
  assumes "schemaTrace host key sevs sok"
    and "\<not> sok \<Longrightarrow> hevs = [] \<and> Q"
    and "sok \<Longrightarrow> hostsTrace parent ts hosts r hevs"
  shows "(\<forall>e \<in> set sevs. schemaOp e \<and> \<not> hostOp e) \<and> (\<forall>e \<in> set hevs. hostOp e \<and> \<not> schemaOp e)
          \<and> sevs \<noteq> []"
proof -
  have "hostOp e \<and> \<not> schemaOp e" if "e \<in> set hevs" for e
  proof (cases sok)
    case True
    from hostsTrace_events [OF assms(3) [OF True] that] show ?thesis by auto
  next
    case False
    with assms(2) that show ?thesis by simp
  qed
  moreover have "schemaOp e \<and> \<not> hostOp e" if "e \<in> set sevs" for e
    using schemaTrace_events [OF assms(1) that] by auto
  moreover have "sevs \<noteq> []" using assms(1) by (auto simp: schemaTrace_def)
  ultimately show ?thesis by blast
qed

subsection \<open>The runs of \<open>Restore\<close>\<close>

lemma cat_not_drop_Cons [simp]:
  "CHR ''c'' # x \<noteq> deleteKeyspace_cmd c" "deleteKeyspace_cmd c \<noteq> CHR ''c'' # x"
  by (simp_all add: deleteKeyspace_cmd_def)

lemma restoreSteps_run:
  assumes d: "deleteKeyspace E host p = (rd, pd)"
    and rest: "case rd of Some err \<Rightarrow> r = Some (Wrap err ''error deleting keyspace'') \<and> p' = pd
         | None \<Rightarrow>
             (case createSchema E h host snapshot pd of
                (Some err, p6) \<Rightarrow> r = Some (Wrap err ''error creating schema'') \<and> p' = p6
              | (None, p6) \<Rightarrow>
                  (case loadSnapshot E h host snapshot p6 of
                     (Some err, p7) \<Rightarrow> r = Some (Wrap err ''error loading snapshot'') \<and> p' = p7
                   | (None, p7) \<Rightarrow> r = None \<and> p' = p7))"
  shows "config p' = config p \<and> hist p' = hist p
          \<and> (\<exists>okd post. trace p' = trace p @ EvAgentRun host (deleteKeyspace_cmd (config p)) okd # post
                \<and> restoreSteps E h (config p) host snapshot post
                \<and> failFast (EvAgentRun host (deleteKeyspace_cmd (config p)) okd # post) (r = None)
                \<and> (\<not> okd \<longrightarrow> post = []))"
proof -
  let ?drop = "EvAgentRun host (deleteKeyspace_cmd (config p))"
  from deleteKeyspace_run [OF d] obtain okd where pd: "pd = emit (?drop okd) p"
    and rd: "rd = None \<longleftrightarrow> okd" by blast
  show ?thesis
  proof (cases rd)
    case (Some err)
    with rest rd pd have "config p' = config p" "hist p' = hist p"
      "trace p' = trace p @ ?drop okd # []" "restoreSteps E h (config p) host snapshot []"
      "failFast (?drop okd # []) (r = None)" "\<not> okd \<longrightarrow> [] = ([]::event list)"
      by (auto simp: restoreSteps_def)
    then show ?thesis by blast
  next
    case None
    with rd have okd: okd by simp
    obtain rc p6 where cs: "createSchema E h host snapshot pd = (rc, p6)" by fastforce
    from createSchema_run [OF cs] pd obtain sevs where c6: "config p6 = config p"
      and h6: "hist p6 = hist p" and t6: "trace p6 = trace p @ ?drop okd # sevs"
      and ss: "schemaSteps E h (config p) host snapshot sevs"
      and fs: "failFast sevs (rc = None)"
      by auto
    show ?thesis
    proof (cases rc)
      case (Some err)
      with rest None cs have r: "r \<noteq> None" and p': "p' = p6" by auto
      from fs Some okd have "failFast (?drop okd # sevs) False"
        by (intro failFast_Cons) simp_all
      with r have ff: "failFast (?drop okd # sevs) (r = None)" by auto
      from ss have rs: "restoreSteps E h (config p) host snapshot sevs"
        unfolding restoreSteps_def by (intro disjI2 exI [of _ sevs] exI [of _ "[]"]) simp
      from c6 h6 t6 rs ff okd show ?thesis unfolding p' by blast
    next
      case cok: None
      obtain rl p7 where ls: "loadSnapshot E h host snapshot p6 = (rl, p7)" by fastforce
      from loadSnapshot_run [OF ls] obtain levs lok where c7: "config p7 = config p6"
        and h7: "hist p7 = hist p6" and t7: "trace p7 = trace p6 @ EvHistKeys snapshot lok # levs"
        and lsteps: "\<forall>e \<in> set levs. (\<exists>d b. e = EvS3DownloadKeys d b)
               \<or> (\<exists>f d b. e = EvAgentUploadFile host f d b)
               \<or> (\<exists>b. e = EvSSTableLoad host b)"
        and fl: "failFast (EvHistKeys snapshot lok # levs) (rl = None)"
        by blast
      from rest None cs cok ls have r: "(r = None) = (rl = None)" and p': "p' = p7"
        by (auto split: option.splits)
      from fs cok okd have "failFast (?drop okd # sevs) True"
        by (intro failFast_Cons) simp_all
      from failFast_append [OF this fl] r
      have ff: "failFast (?drop okd # sevs @ EvHistKeys snapshot lok # levs) (r = None)"
        by simp
      have "loadSteps host snapshot (EvHistKeys snapshot lok # levs)"
        unfolding loadSteps_def using lsteps by blast
      with ss have rs: "restoreSteps E h (config p) host snapshot (sevs @ EvHistKeys snapshot lok # levs)"
        unfolding restoreSteps_def by blast
      have "trace p' = trace p @ ?drop okd # sevs @ EvHistKeys snapshot lok # levs"
        by (simp add: p' t7 t6)
      moreover have "config p' = config p" "hist p' = hist p"
        by (simp_all add: p' c7 c6 h7 h6)
      ultimately show ?thesis using rs ff okd by blast
    qed
  qed
qed

lemma restoreSteps_result:
  assumes "case rd of Some err \<Rightarrow> r = Some (Wrap err ''error deleting keyspace'') \<and> p' = pd
         | None \<Rightarrow>
             (case createSchema E h host snapshot pd of
                (Some err, p6) \<Rightarrow> r = Some (Wrap err ''error creating schema'') \<and> p' = p6
              | (None, p6) \<Rightarrow>
                  (case loadSnapshot E h host snapshot p6 of
                     (Some err, p7) \<Rightarrow> r = Some (Wrap err ''error loading snapshot'') \<and> p' = p7
                   | (None, p7) \<Rightarrow> r = None \<and> p' = p7))"
  shows "r = None \<or> (\<exists>err. r = Some (Wrap err ''error deleting keyspace'')
                        \<or> r = Some (Wrap err ''error creating schema'')
                        \<or> r = Some (Wrap err ''error loading snapshot''))"
  using assms by (auto split: option.splits prod.splits)

lemma Restore_run [consumes 1, case_names NoHosts HistoryFailed NoBackup Invalid Validated]:
  assumes "Restore E p = (r, p')"
  obtains
    (NoHosts) "r = Some ''did not find valid cassandra hosts''" "trace p' = trace p @ [EvHosts []]"
      "config p' = config p" "hist p' = hist p"
  | (HistoryFailed) hosts err where "hosts \<noteq> []" "hist p = None"
      "r = Some (Wrap err ''error getting snapshot history'')"
      "trace p' = trace p @ [EvHosts hosts, EvS3SnapshotHistory False]"
      "config p' = config p" "hist p' = None"
  | (NoBackup) hosts load h where "hosts \<noteq> []"
      "load = [] \<and> hist p = Some h \<or> load = [EvS3SnapshotHistory True] \<and> hist p = None"
      "Snapshot (config p) = ''''" "resolvedTarget (Snapshot (config p)) (hist_List E h) = ''''"
      "r = Some ''no existing backup to restore from''"
      "trace p' = trace p @ [EvHosts hosts] @ load @ [EvHistList (hist_List E h)]"
      "config p' = config p" "hist p' = Some h"
  | (Invalid) hosts load h look where "hosts \<noteq> []"
      "load = [] \<and> hist p = Some h \<or> load = [EvS3SnapshotHistory True] \<and> hist p = None"
      "look = (if Snapshot (config p) = '''' then [EvHistList (hist_List E h)] else [])"
      "resolvedTarget (Snapshot (config p)) (hist_List E h) \<noteq> ''''"
      "\<not> hist_Valid E h (resolvedTarget (Snapshot (config p)) (hist_List E h))"
      "r = Some (resolvedTarget (Snapshot (config p)) (hist_List E h) @ '' is not a valid snapshot'')"
      "trace p' = trace p @ [EvHosts hosts] @ load @ look
                   @ [EvHistValid (resolvedTarget (Snapshot (config p)) (hist_List E h)) False]"
      "config p' = config p" "hist p' = Some h"
  | (Validated) hosts load h look okd post where "hosts \<noteq> []"
      "load = [] \<and> hist p = Some h \<or> load = [EvS3SnapshotHistory True] \<and> hist p = None"
      "look = (if Snapshot (config p) = '''' then [EvHistList (hist_List E h)] else [])"
      "resolvedTarget (Snapshot (config p)) (hist_List E h) \<noteq> ''''"
      "hist_Valid E h (resolvedTarget (Snapshot (config p)) (hist_List E h))"
      "trace p' = trace p @ [EvHosts hosts] @ load @ look
                   @ [EvHistValid (resolvedTarget (Snapshot (config p)) (hist_List E h)) True,
                      EvAgentRun (hd hosts) (deleteKeyspace_cmd (config p)) okd] @ post"
      "restoreSteps E h (config p) (hd hosts)
         (resolvedTarget (Snapshot (config p)) (hist_List E h)) post"
      "failFast (EvAgentRun (hd hosts) (deleteKeyspace_cmd (config p)) okd # post) (r = None)"
      "\<not> okd \<Longrightarrow> post = []"
      "config p' = config p" "hist p' = Some h"
      "r = None \<or> (\<exists>err. r = Some (Wrap err ''error deleting keyspace'')
                        \<or> r = Some (Wrap err ''error creating schema'')
                        \<or> r = Some (Wrap err ''error loading snapshot''))"
proof -
  define hosts where "hosts = cassandra_Hosts E p"
  define p1 where "p1 = emit (EvHosts hosts) p"
  show thesis
  proof (cases "hosts = []")
    case True
    with assms have "r = Some ''did not find valid cassandra hosts''" "p' = emit (EvHosts []) p"
      by (simp_all add: Restore_def hosts_def Let_def)
    then show thesis by (intro NoHosts) simp_all
  next
    case ne: False
    obtain rh p2 where sh: "SnapshotHistory E p1 = (rh, p2)" by fastforce
    show thesis
    proof (cases rh)
      case (Some e)
      from SnapshotHistory_fail [OF sh [unfolded Some]]
      obtain err where "hist p = None" "p2 = emit (EvS3SnapshotHistory False) p1"
        "e = Wrap err ''error getting snapshot history''"
        by (auto simp: p1_def)
      moreover from assms ne sh Some have "r = Some e" "p' = p2"
        by (simp_all add: Restore_def hosts_def [symmetric] p1_def [symmetric] Let_def)
      ultimately show thesis using ne
        by (intro HistoryFailed [where hosts = hosts and err = err]) (simp_all add: p1_def)
    next
      case None
      from SnapshotHistory_ok [OF sh [unfolded None]]
      obtain h load where h: "hist p2 = Some h" and c2: "config p2 = config p"
        and t2: "trace p2 = trace p @ [EvHosts hosts] @ load"
        and load: "load = [] \<and> hist p = Some h \<or> load = [EvS3SnapshotHistory True] \<and> hist p = None"
        by (auto simp: p1_def)
      define snaps where "snaps = hist_List E h"
      define target where "target = resolvedTarget (Snapshot (config p)) snaps"
      define look where "look = (if Snapshot (config p) = '''' then [EvHistList snaps] else [])"
      define p3 where "p3 = (if Snapshot (config p) = '''' then emit (EvHistList snaps) p2 else p2)"
      have t3: "trace p3 = trace p @ [EvHosts hosts] @ load @ look"
        and c3: "config p3 = config p" and h3: "hist p3 = Some h"
        by (simp_all add: p3_def look_def t2 c2 h)
      have lastn: "snaps \<noteq> [] \<Longrightarrow> snaps ! (length snaps - 1) = last snaps"
        by (simp add: last_conv_nth)
      have hd0: "hosts ! 0 = hd hosts" using ne by (simp add: hd_conv_nth)
      have cp1: "config p1 = config p" by (simp add: p1_def)
      consider (explicit) "Snapshot (config p) \<noteq> ''''" "target = Snapshot (config p)" "p3 = p2"
        | (latest) "Snapshot (config p) = ''''" "snaps \<noteq> []"
            "target = snaps ! (length snaps - 1)" "p3 = emit (EvHistList snaps) p2"
        | (none) "Snapshot (config p) = ''''" "snaps = []" "target = ''''"
            "p3 = emit (EvHistList snaps) p2"
        using lastn by (cases "Snapshot (config p) = ''''"; cases "snaps = []")
          (auto simp: target_def resolvedTarget_def p3_def)
      then have body: "Restore E p =
          (if target = '''' then (Some ''no existing backup to restore from'', p3)
           else
             (let valid = hist_Valid E h target;
                  p4 = emit (EvHistValid target valid) p3
              in if \<not> valid
                 then (Some (target @ '' is not a valid snapshot''), p4)
                 else case deleteKeyspace E (hosts ! 0) p4 of
                        (Some err, p5) \<Rightarrow> (Some (Wrap err ''error deleting keyspace''), p5)
                      | (None, p5) \<Rightarrow>
                          (case createSchema E h (hosts ! 0) target p5 of
                             (Some err, p6) \<Rightarrow> (Some (Wrap err ''error creating schema''), p6)
                           | (None, p6) \<Rightarrow>
                               (case loadSnapshot E h (hosts ! 0) target p6 of
                                  (Some err, p7) \<Rightarrow>
                                    (Some (Wrap err ''error loading snapshot''), p7)
                                | (None, p7) \<Rightarrow> (None, p7)))))"
      proof cases
        case explicit
        with ne sh None h cp1 show ?thesis
          unfolding explicit(2,3)
          by (simp add: Restore_def hosts_def [symmetric] p1_def [symmetric] Let_def
                cong: option.case_cong)
      next
        case latest
        with ne sh None h cp1 show ?thesis
          unfolding latest(3,4)
          by (simp add: Restore_def hosts_def [symmetric] p1_def [symmetric] Let_def
                snaps_def [symmetric] cong: option.case_cong)
      next
        case none
        with ne sh None h cp1 show ?thesis
          unfolding none(3,4)
          by (simp add: Restore_def hosts_def [symmetric] p1_def [symmetric] Let_def
                snaps_def [symmetric] cong: option.case_cong)
      qed
      show thesis
      proof (cases "target = ''''")
        case True
        with assms body have r: "r = Some ''no existing backup to restore from''" and p': "p' = p3"
          by simp_all
        from True have ex: "Snapshot (config p) = ''''"
          by (auto simp: target_def resolvedTarget_def split: if_splits)
        with t3 have t': "trace p' = trace p @ [EvHosts hosts] @ load @ [EvHistList (hist_List E h)]"
          by (simp add: p' look_def snaps_def)
        have c': "config p' = config p" and h': "hist p' = Some h"
          by (simp_all add: p' c3 h3)
        from True have tg: "resolvedTarget (Snapshot (config p)) (hist_List E h) = ''''"
          by (simp add: target_def snaps_def)
        from ne load ex tg r t' c' h' show thesis by (rule NoBackup)
      next
        case tne: False
        let ?p4 = "emit (EvHistValid target (hist_Valid E h target)) p3"
        have lk: "look = (if Snapshot (config p) = '''' then [EvHistList (hist_List E h)] else [])"
          by (simp add: look_def snaps_def)
        have tg: "target = resolvedTarget (Snapshot (config p)) (hist_List E h)"
          by (simp add: target_def snaps_def)
        show thesis
        proof (cases "hist_Valid E h target")
          case False
          with assms body tne have r: "r = Some (target @ '' is not a valid snapshot'')"
            and p': "p' = ?p4"
            by (simp_all add: Let_def)
          from t3 False have t': "trace p' = trace p @ [EvHosts hosts] @ load @ look
                   @ [EvHistValid target False]"
            by (simp add: p')
          have c': "config p' = config p" and h': "hist p' = Some h"
            by (simp_all add: p' c3 h3)
          from ne load lk tne False r t' c' h' show thesis
            unfolding tg by (rule Invalid)
        next
          case valid: True
          obtain rd pd where d: "deleteKeyspace E (hd hosts) ?p4 = (rd, pd)" by fastforce
          note body' = body [unfolded hd0]
          have rest: "case rd of Some err \<Rightarrow> r = Some (Wrap err ''error deleting keyspace'') \<and> p' = pd
             | None \<Rightarrow>
               (case createSchema E h (hd hosts) target pd of
                  (Some err, p6) \<Rightarrow> r = Some (Wrap err ''error creating schema'') \<and> p' = p6
                | (None, p6) \<Rightarrow>
                    (case loadSnapshot E h (hd hosts) target p6 of
                       (Some err, p7) \<Rightarrow> r = Some (Wrap err ''error loading snapshot'') \<and> p' = p7
                     | (None, p7) \<Rightarrow> r = None \<and> p' = p7))"
            using assms body' tne valid d
            by (auto simp: Let_def split: option.splits prod.splits)
          from restoreSteps_run [OF d rest] valid
          obtain okd post where c': "config p' = config p" and h': "hist p' = Some h"
            and t': "trace p' = trace p @ [EvHosts hosts] @ load @ look
                   @ [EvHistValid target True,
                      EvAgentRun (hd hosts) (deleteKeyspace_cmd (config p)) okd] @ post"
            and rs: "restoreSteps E h (config p) (hd hosts) target post"
            and ff: "failFast (EvAgentRun (hd hosts) (deleteKeyspace_cmd (config p)) okd # post) (r = None)"
            and nd: "\<not> okd \<Longrightarrow> post = []"
            by (auto simp: c3 h3 t3)
          note re = restoreSteps_result [OF rest]
          from ne load lk tne valid t' rs ff nd c' h' re show thesis
            unfolding tg by (rule Validated)
        qed
      qed
    qed
  qed
qed

lemma schemaSteps_events:
  assumes "schemaSteps E h c host target sevs" and "e \<in> set sevs"
  shows "e = EvHistParent target (hist_Parent E h target)
         \<or> (\<exists>ok. e = EvS3DownloadKey (createSchema_key c (hist_Parent E h target) target)
                      (TempDir c @ ''/local'') ok)
         \<or> (\<exists>f d b. e = EvAgentUploadFile host f d b)
         \<or> (\<exists>x b. e = EvAgentRun host (''cat '' @ x) b)"
proof -
  from assms(1) obtain rest ok where
    sevs: "sevs = EvHistParent target (hist_Parent E h target)
                  # EvS3DownloadKey (createSchema_key c (hist_Parent E h target) target)
                      (TempDir c @ ''/local'') ok # rest"
    and rest: "\<forall>e \<in> set rest. (\<exists>f d b. e = EvAgentUploadFile host f d b)
                            \<or> (\<exists>x b. e = EvAgentRun host (''cat '' @ x) b)"
    unfolding schemaSteps_def by blast
  from assms(2) sevs consider "e = EvHistParent target (hist_Parent E h target)"
    | "e = EvS3DownloadKey (createSchema_key c (hist_Parent E h target) target)
                      (TempDir c @ ''/local'') ok"
    | "e \<in> set rest" by auto
  then show ?thesis using rest by cases blast+
qed

lemma loadSteps_events:
  assumes "loadSteps host target levs" and "e \<in> set levs"
  shows "(\<exists>ok. e = EvHistKeys target ok) \<or> (\<exists>d b. e = EvS3DownloadKeys d b)
         \<or> (\<exists>f d b. e = EvAgentUploadFile host f d b) \<or> (\<exists>b. e = EvSSTableLoad host b)"
proof -
  from assms(1) obtain ok rest where levs: "levs = EvHistKeys target ok # rest"
    and rest: "\<forall>e \<in> set rest. (\<exists>d b. e = EvS3DownloadKeys d b)
               \<or> (\<exists>f d b. e = EvAgentUploadFile host f d b)
               \<or> (\<exists>b. e = EvSSTableLoad host b)"
    unfolding loadSteps_def by blast
  from assms(2) levs consider "e = EvHistKeys target ok" | "e \<in> set rest" by auto
  then show ?thesis using rest by cases blast+
qed

lemma restoreSteps_events:
  assumes "restoreSteps E h c host target post" and "e \<in> set post"
  shows "e = EvHistParent target (hist_Parent E h target)
         \<or> (\<exists>ok. e = EvS3DownloadKey (createSchema_key c (hist_Parent E h target) target)
                      (TempDir c @ ''/local'') ok)
         \<or> (\<exists>f d b. e = EvAgentUploadFile host f d b)
         \<or> (\<exists>x b. e = EvAgentRun host (''cat '' @ x) b)
         \<or> (\<exists>ok. e = EvHistKeys target ok) \<or> (\<exists>d b. e = EvS3DownloadKeys d b)
         \<or> (\<exists>b. e = EvSSTableLoad host b)"
proof -
  from assms have "post \<noteq> []" by auto
  with assms(1) obtain sevs levs where post: "post = sevs @ levs"
    and s: "schemaSteps E h c host target sevs" and l: "levs = [] \<or> loadSteps host target levs"
    unfolding restoreSteps_def by blast
  from assms(2) post consider "e \<in> set sevs" | "e \<in> set levs" by auto
  then show ?thesis
  proof cases
    case 1
    from schemaSteps_events [OF s 1] show ?thesis by blast
  next
    case 2
    then have "levs \<noteq> []" by auto
    with l have "loadSteps host target levs" by simp
    from loadSteps_events [OF this 2] show ?thesis by blast
  qed
qed

lemma restoreSteps_ops:
  assumes "restoreSteps E h c host target post" and "e \<in> set post"
  shows "restoreOp e \<and> \<not> isDrop c' e"
  using restoreSteps_events [OF assms] by auto

lemma not_valid_neq_no_backup [simp]:
  "target @ '' is not a valid snapshot'' \<noteq> ''no existing backup to restore from''"
proof
  assume "target @ '' is not a valid snapshot'' = ''no existing backup to restore from''"
  then have "last (target @ '' is not a valid snapshot'') = last ''no existing backup to restore from''"
    by (rule arg_cong)
  then show False by simp
qed

lemma Wrap_neq_no_backup [simp]:
  "Wrap err ''error deleting keyspace'' \<noteq> ''no existing backup to restore from''"
  "Wrap err ''error creating schema'' \<noteq> ''no existing backup to restore from''"
  "Wrap err ''error loading snapshot'' \<noteq> ''no existing backup to restore from''"
  by (simp_all add: Wrap_def)

lemma uploadFilesLoop_dirs:
  assumes "uploadFilesLoop E host rtd files dirs0 p = (Inr dirs, p')"
  shows "trace p' = trace p @ map (\<lambda>(key, localFile).
                        EvAgentUploadFile host localFile (path_Dir E (rtd @ ''/'' @ key)) True) files
       \<and> dirs = (\<lambda>d. if d \<in> (\<lambda>(key, localFile). path_Dir E (rtd @ ''/'' @ key)) ` set files
                     then Some True else dirs0 d)"
  using assms
proof (induction files arbitrary: dirs0 p)
  case Nil
  then show ?case by simp
next
  case (Cons kf files)
  obtain key localFile where kf: "kf = (key, localFile)" by (cases kf)
  let ?d = "path_Dir E (rtd @ ''/'' @ key)"
  from Cons.prems kf have up: "agent_UploadFile E p host localFile ?d = None"
    by (auto simp: Let_def split: option.splits)
  with Cons.prems kf
  have "uploadFilesLoop E host rtd files (dirs0(?d \<mapsto> True))
          (emit (EvAgentUploadFile host localFile ?d True) p) = (Inr dirs, p')"
    by (simp add: Let_def)
  from Cons.IH [OF this] kf show ?case by (auto simp: fun_eq_iff)
qed

lemma History_run:
  assumes "hist p = Some h"
  shows "History E p = (None, emit EvPrintf p)"
  using assms by (simp add: History_def SnapshotHistory_def)

lemma Backup_cached:
  assumes "hist p = Some h" and "Backup E p = (r, p')"
  shows "hist p' = Some h \<and> (\<exists>evs. trace p' = trace p @ evs \<and> (\<forall>b. EvS3SnapshotHistory b \<notin> set evs))"
  using assms(2)
proof (cases rule: Backup_run)
  case NoHosts
  with assms(1) show ?thesis by simp
next
  case (HistoryFailed hosts err)
  with assms(1) show ?thesis by simp
next
  case (NonMonotonic hosts load h' ts snaps)
  with assms(1) show ?thesis by auto
next
  case (Proceeded hosts load h' ts snaps sevs sok hevs)
  note ops = Backup_evs_ops [OF Proceeded(7) Proceeded(8) Proceeded(9)]
  from ops have "\<forall>b. EvS3SnapshotHistory b \<notin> set sevs \<and> EvS3SnapshotHistory b \<notin> set hevs"
    by fastforce
  with Proceeded(2,4,6) assms(1) show ?thesis by auto
qed

lemma Restore_cached:
  assumes "hist p = Some h" and "Restore E p = (r, p')"
  shows "hist p' = Some h \<and> (\<exists>evs. trace p' = trace p @ evs \<and> (\<forall>b. EvS3SnapshotHistory b \<notin> set evs))"
  using assms(2)
proof (cases rule: Restore_run)
  case NoHosts
  with assms(1) show ?thesis by simp
next
  case (HistoryFailed hosts err)
  with assms(1) show ?thesis by simp
next
  case (NoBackup hosts load h')
  with assms(1) show ?thesis by auto
next
  case (Invalid hosts load h' look)
  with assms(1) show ?thesis by auto
next
  case (Validated hosts load h' look okd post)
  from restoreSteps_ops [OF Validated(7)]
  have "\<forall>b. EvS3SnapshotHistory b \<notin> set post" by fastforce
  with Validated(2,3,6,11) assms(1) show ?thesis by auto
qed

lemmas sample_defs =
  env0_def envOld_def envSame_def envEmpty_def envSchemaFail_def envHostFail_def
  envLoadFail_def cfg0_def p0_def

lemmas run_defs =
  Backup_def Restore_def History_def SnapshotHistory_def NewTimestamp_def schemaBackup_def
  schemaBackup_key_def deleteKeyspace_def deleteKeyspace_cmd_def createSchema_def
  createSchema_key_def loadSnapshot_def uploadFilesToHost_def TrimSuffix_def Wrap_def
  emit_def Let_def

section \<open>The claims\<close>

subsection \<open>Backup\<close>




text \<open>
  C5. In a run of \<open>Backup\<close> in which a call of the schema phase fails (the dump of the
  schema on the node or the upload of the schema file), \<open>Backup\<close> returns an error, wrapped
  as \<open>schema backup failed\<close>, and the loop over the hosts has not started: the run holds
  no snapshot, no upload of files and no deletion of a local snapshot.
\<close>

theorem Backup_schema_failure_stops:
  assumes "Backup E p = (r, p')" and "trace p' = trace p @ evs"
    and "e \<in> set evs" and "schemaOp e" and "failed e"
  shows "(\<exists>err. r = Some (Wrap err ''schema backup failed''))
           \<and> (\<forall>e' \<in> set evs. \<not> hostOp e')"
  using assms(1)
proof (cases rule: Backup_run)
  case NoHosts
  with assms show ?thesis by auto
next
  case (HistoryFailed hosts err)
  with assms show ?thesis by auto
next
  case (NonMonotonic hosts load h ts snaps)
  with assms show ?thesis by auto
next
  case (Proceeded hosts load h ts snaps sevs sok hevs)
  note ops = Backup_evs_ops [OF Proceeded(7) Proceeded(8) Proceeded(9)]
  from Proceeded(4) assms(2)
  have evs: "evs = [EvHosts hosts] @ load @ [EvNow ts, EvHistList snaps] @ sevs @ hevs"
    by simp
  from assms(3-5) Proceeded(2) ops have "e \<in> set sevs" unfolding evs by auto
  with Proceeded(7) assms(5) have "\<not> sok" by (auto simp: schemaTrace_def)
  with Proceeded(8) Proceeded(2) ops show ?thesis unfolding evs by auto
qed

text \<open>C5, a run: the upload of the schema file is refused.\<close>

theorem Backup_schema_failure_stops_witness:
  "Backup envSchemaFail p0
     = (Some ''schema backup failed: schema upload @ h1: denied'', snd (Backup envSchemaFail p0))
   \<and> trace (snd (Backup envSchemaFail p0)) =
       trace p0 @ [EvHosts [''h1'', ''h2''], EvS3SnapshotHistory True,
                   EvNow ''2024-01-02_000000'', EvHistList [''2024-01-01_000000''],
                   EvSchemaBackup ''h1'' True,
                   EvS3UploadFile ''h1'' ''s.cql''
                     ''/b/ks/2024-01-01_000000/2024-01-02_000000/ks.schema.gz'' False]
   \<and> schemaOp (EvS3UploadFile ''h1'' ''s.cql''
                  ''/b/ks/2024-01-01_000000/2024-01-02_000000/ks.schema.gz'' False)
   \<and> failed (EvS3UploadFile ''h1'' ''s.cql''
                 ''/b/ks/2024-01-01_000000/2024-01-02_000000/ks.schema.gz'' False)
   \<and> (\<exists>err. fst (Backup envSchemaFail p0) = Some (Wrap err ''schema backup failed''))
   \<and> filter hostOp (trace (snd (Backup envSchemaFail p0))) = []"
proof -
  let ?up = "EvS3UploadFile ''h1'' ''s.cql''
               ''/b/ks/2024-01-01_000000/2024-01-02_000000/ks.schema.gz'' False"
  let ?evs = "[EvHosts [''h1'', ''h2''], EvS3SnapshotHistory True,
               EvNow ''2024-01-02_000000'', EvHistList [''2024-01-01_000000''],
               EvSchemaBackup ''h1'' True, ?up]"
  have run: "Backup envSchemaFail p0
     = (Some ''schema backup failed: schema upload @ h1: denied'', snd (Backup envSchemaFail p0))"
    by (simp add: sample_defs run_defs)
  have tr: "trace (snd (Backup envSchemaFail p0)) = trace p0 @ ?evs"
    by (simp add: sample_defs run_defs)
  have mem: "?up \<in> set ?evs" and s: "schemaOp ?up" and f: "failed ?up"
    by simp_all
  have t0: "trace p0 = []" by (simp add: p0_def)
  from run have res: "fst (Backup envSchemaFail p0)
                        = Some ''schema backup failed: schema upload @ h1: denied''"
    by (metis fst_conv)
  from Backup_schema_failure_stops [OF run tr mem s f] run tr s f t0 res show ?thesis
    by simp
qed

text \<open>
  C2. In a run of \<open>Backup\<close> that passes the timestamp check, with generated timestamp \<open>ts\<close>
  and history list \<open>snaps\<close>: the parent is the last entry of the list when the list is not
  empty and the configuration asks for an incremental backup, and \<open>ts\<close> itself otherwise.
  Every upload of host files carries this parent and \<open>ts\<close>, the schema file is uploaded
  under the key built from them, and a run that returns \<open>nil\<close> has uploaded it. After the
  run the flag \<open>Incremental\<close> holds only if the list was not empty and the flag was set
  before. The run never asks the history for the parent of a snapshot.
\<close>

theorem Backup_parent_resolution:
  assumes "Backup E p = (r, p')" and "trace p' = trace p @ evs"
    and "EvNow ts \<in> set evs" and "EvHistList snaps \<in> set evs"
    and "\<not> (snaps \<noteq> [] \<and> ts < last snaps)"
  shows "(\<forall>par t host ok. EvS3UploadFiles par t host ok \<in> set evs \<longrightarrow>
            t = ts \<and> par = (if snaps \<noteq> [] \<and> Incremental (config p) then last snaps else ts))
       \<and> (\<forall>host sfile key ok. EvS3UploadFile host sfile key ok \<in> set evs \<longrightarrow>
            key = schemaBackup_key (config p)
                    (if snaps \<noteq> [] \<and> Incremental (config p) then last snaps else ts) ts)
       \<and> (r = None \<longrightarrow>
            (\<exists>host sfile. EvS3UploadFile host sfile
               (schemaBackup_key (config p)
                  (if snaps \<noteq> [] \<and> Incremental (config p) then last snaps else ts) ts) True
               \<in> set evs))
       \<and> Incremental (config p') = (snaps \<noteq> [] \<and> Incremental (config p))
       \<and> (\<forall>s q. EvHistParent s q \<notin> set evs)"
  using assms(1-4)
proof (cases rule: Backup_evs)
  case (NonMonotonic hosts load)
  with assms(5) show ?thesis by simp
next
  case (Proceeded hosts load sevs sok hevs)
  let ?parent = "resolvedParent (Incremental (config p)) snaps ts"
  have par: "(if snaps \<noteq> [] \<and> Incremental (config p) then last snaps else ts) = ?parent"
    by (simp add: resolvedParent_def)
  note ops = Backup_evs_ops [OF Proceeded(6) Proceeded(7) Proceeded(8)]
  have h: "(\<exists>host ok. e = EvSnapshot host ts ok) \<or> (\<exists>host ok. e = EvS3UploadFiles ?parent ts host ok)
           \<or> (\<exists>host ok. e = EvDeleteSnapshot host ok)" if "e \<in> set hevs" for e
  proof (cases sok)
    case True
    from hostsTrace_events [OF Proceeded(8) [OF True] that] show ?thesis .
  next
    case False
    with Proceeded(7) that show ?thesis by simp
  qed
  note s = schemaTrace_events [OF Proceeded(6)]
  have up: "t = ts \<and> par = ?parent" if "EvS3UploadFiles par t host ok \<in> set evs" for par t host ok
    using that Proceeded(2) h s unfolding Proceeded(4) by fastforce
  have key: "key = schemaBackup_key (config p) ?parent ts"
    if "EvS3UploadFile host sfile key ok \<in> set evs" for host sfile key ok
    using that Proceeded(2) h s unfolding Proceeded(4) by fastforce
  have nopar: "EvHistParent s' q \<notin> set evs" for s' q
    using Proceeded(2) h s unfolding Proceeded(4) by fastforce
  have sent: "\<exists>host sfile. EvS3UploadFile host sfile (schemaBackup_key (config p) ?parent ts) True
               \<in> set evs" if "r = None"
  proof -
    from that Proceeded(7) have sok by auto
    with Proceeded(6) obtain sfile where
      "sevs = [EvSchemaBackup (hd hosts) True,
               EvS3UploadFile (hd hosts) sfile (schemaBackup_key (config p) ?parent ts) True]"
      unfolding schemaTrace_def by auto
    then have "EvS3UploadFile (hd hosts) sfile (schemaBackup_key (config p) ?parent ts) True
                 \<in> set evs"
      unfolding Proceeded(4) by simp
    then show ?thesis by blast
  qed
  from Proceeded(5) have inc: "Incremental (config p') = (snaps \<noteq> [] \<and> Incremental (config p))"
    by simp
  show ?thesis unfolding par using up key nopar sent inc by blast
qed

text \<open>
  C2, a run: the history is empty and an incremental backup is requested; the backup is
  its own parent and the flag is cleared.
\<close>

theorem Backup_parent_resolution_witness:
  "Backup envEmpty p0 = (None, snd (Backup envEmpty p0))
   \<and> trace (snd (Backup envEmpty p0)) =
       trace p0 @ [EvHosts [''h1'', ''h2''], EvS3SnapshotHistory True,
                   EvNow ''2024-01-02_000000'', EvHistList [],
                   EvSchemaBackup ''h1'' True,
                   EvS3UploadFile ''h1'' ''s.cql''
                     ''/b/ks/2024-01-02_000000/2024-01-02_000000/ks.schema.gz'' True,
                   EvSnapshot ''h1'' ''2024-01-02_000000'' True,
                   EvS3UploadFiles ''2024-01-02_000000'' ''2024-01-02_000000'' ''h1'' True,
                   EvDeleteSnapshot ''h1'' True,
                   EvSnapshot ''h2'' ''2024-01-02_000000'' True,
                   EvS3UploadFiles ''2024-01-02_000000'' ''2024-01-02_000000'' ''h2'' True,
                   EvDeleteSnapshot ''h2'' True]
   \<and> Incremental (config p0)
   \<and> \<not> Incremental (config (snd (Backup envEmpty p0)))
   \<and> schemaBackup_key (config p0) ''2024-01-02_000000'' ''2024-01-02_000000''
       = ''/b/ks/2024-01-02_000000/2024-01-02_000000/ks.schema.gz''"
proof -
  let ?evs = "[EvHosts [''h1'', ''h2''], EvS3SnapshotHistory True,
                   EvNow ''2024-01-02_000000'', EvHistList [],
                   EvSchemaBackup ''h1'' True,
                   EvS3UploadFile ''h1'' ''s.cql''
                     ''/b/ks/2024-01-02_000000/2024-01-02_000000/ks.schema.gz'' True,
                   EvSnapshot ''h1'' ''2024-01-02_000000'' True,
                   EvS3UploadFiles ''2024-01-02_000000'' ''2024-01-02_000000'' ''h1'' True,
                   EvDeleteSnapshot ''h1'' True,
                   EvSnapshot ''h2'' ''2024-01-02_000000'' True,
                   EvS3UploadFiles ''2024-01-02_000000'' ''2024-01-02_000000'' ''h2'' True,
                   EvDeleteSnapshot ''h2'' True]"
  have run: "Backup envEmpty p0 = (None, snd (Backup envEmpty p0))"
    by (simp add: sample_defs run_defs)
  have tr: "trace (snd (Backup envEmpty p0)) = trace p0 @ ?evs"
    by (simp add: sample_defs run_defs)
  have now: "EvNow ''2024-01-02_000000'' \<in> set ?evs" and list: "EvHistList [] \<in> set ?evs"
    by simp_all
  have mono: "\<not> (([]::string list) \<noteq> [] \<and> ''2024-01-02_000000'' < last [])" by simp
  have inc: "Incremental (config p0)" by (simp add: sample_defs)
  have key: "schemaBackup_key (config p0) ''2024-01-02_000000'' ''2024-01-02_000000''
       = ''/b/ks/2024-01-02_000000/2024-01-02_000000/ks.schema.gz''"
    by (simp add: sample_defs run_defs)
  from Backup_parent_resolution [OF run tr now list mono]
  have "Incremental (config (snd (Backup envEmpty p0))) = (([]::string list) \<noteq> [] \<and> Incremental (config p0))"
    by blast
  with run tr inc key show ?thesis by simp
qed

text \<open>
  C6. The trace of every run of \<open>Backup\<close> is the list of hosts, calls that are not
  host calls, and then the calls of the loop. Either the run failed before the loop, or
  the loop has processed a prefix of the host list in order, each host through snapshot,
  upload and deletion of the local snapshot (\<open>hostsTrace\<close>): when \<open>Backup\<close> returns \<open>nil\<close>
  the prefix is the whole list; otherwise the next host fails at one of its three steps,
  that call is the last of the trace, and the error names the step and the host. Nothing
  follows the failing call, so no later host is attempted and no upload of an earlier
  host is undone.
\<close>

theorem Backup_hosts_in_order:
  assumes "Backup E p = (r, p')" and "trace p' = trace p @ evs"
  shows "\<exists>hosts pre parent ts hevs.
           evs = EvHosts hosts # pre @ hevs \<and> (\<forall>e \<in> set pre. \<not> hostOp e)
           \<and> (hevs = [] \<and> r \<noteq> None \<or> hostsTrace parent ts hosts r hevs)"
  using assms(1)
proof (cases rule: Backup_run)
  case NoHosts
  with assms(2) have "evs = EvHosts [] # [] @ []" "r \<noteq> None" by simp_all
  then show ?thesis by fastforce
next
  case (HistoryFailed hosts err)
  with assms(2) have "evs = EvHosts hosts # [EvS3SnapshotHistory False] @ []" "r \<noteq> None"
    "\<forall>e \<in> set [EvS3SnapshotHistory False]. \<not> hostOp e"
    by simp_all
  then show ?thesis by blast
next
  case (NonMonotonic hosts load h ts snaps)
  with assms(2) have "evs = EvHosts hosts # (load @ [EvNow ts, EvHistList snaps]) @ []" "r \<noteq> None"
    "\<forall>e \<in> set (load @ [EvNow ts, EvHistList snaps]). \<not> hostOp e"
    by auto
  then show ?thesis by blast
next
  case (Proceeded hosts load h ts snaps sevs sok hevs)
  let ?parent = "resolvedParent (Incremental (config p)) snaps ts"
  note ops = Backup_evs_ops [OF Proceeded(7) Proceeded(8) Proceeded(9)]
  from Proceeded(4) assms(2)
  have evs: "evs = EvHosts hosts # (load @ [EvNow ts, EvHistList snaps] @ sevs) @ hevs"
    by simp
  from Proceeded(2) ops
  have pre: "\<forall>e \<in> set (load @ [EvNow ts, EvHistList snaps] @ sevs). \<not> hostOp e"
    by auto
  have "hevs = [] \<and> r \<noteq> None \<or> hostsTrace ?parent ts hosts r hevs"
    using Proceeded(8,9) by (cases sok) auto
  with evs pre show ?thesis by blast
qed

text \<open>C6, a run: the upload of the second of two hosts fails.\<close>

theorem Backup_hosts_in_order_witness:
  "Backup envHostFail p0 = (Some ''upload @ h2: timeout'', snd (Backup envHostFail p0))
   \<and> trace (snd (Backup envHostFail p0)) =
       trace p0 @ [EvHosts [''h1'', ''h2''], EvS3SnapshotHistory True,
                   EvNow ''2024-01-02_000000'', EvHistList [''2024-01-01_000000''],
                   EvSchemaBackup ''h1'' True,
                   EvS3UploadFile ''h1'' ''s.cql''
                     ''/b/ks/2024-01-01_000000/2024-01-02_000000/ks.schema.gz'' True,
                   EvSnapshot ''h1'' ''2024-01-02_000000'' True,
                   EvS3UploadFiles ''2024-01-01_000000'' ''2024-01-02_000000'' ''h1'' True,
                   EvDeleteSnapshot ''h1'' True,
                   EvSnapshot ''h2'' ''2024-01-02_000000'' True,
                   EvS3UploadFiles ''2024-01-01_000000'' ''2024-01-02_000000'' ''h2'' False]
   \<and> (\<exists>hosts pre parent ts hevs.
           [EvHosts [''h1'', ''h2''], EvS3SnapshotHistory True,
                   EvNow ''2024-01-02_000000'', EvHistList [''2024-01-01_000000''],
                   EvSchemaBackup ''h1'' True,
                   EvS3UploadFile ''h1'' ''s.cql''
                     ''/b/ks/2024-01-01_000000/2024-01-02_000000/ks.schema.gz'' True,
                   EvSnapshot ''h1'' ''2024-01-02_000000'' True,
                   EvS3UploadFiles ''2024-01-01_000000'' ''2024-01-02_000000'' ''h1'' True,
                   EvDeleteSnapshot ''h1'' True,
                   EvSnapshot ''h2'' ''2024-01-02_000000'' True,
                   EvS3UploadFiles ''2024-01-01_000000'' ''2024-01-02_000000'' ''h2'' False]
             = EvHosts hosts # pre @ hevs \<and> (\<forall>e \<in> set pre. \<not> hostOp e)
           \<and> (hevs = [] \<and> Some ''upload @ h2: timeout'' \<noteq> None
                \<or> hostsTrace parent ts hosts (Some ''upload @ h2: timeout'') hevs))"
proof -
  have run: "Backup envHostFail p0 = (Some ''upload @ h2: timeout'', snd (Backup envHostFail p0))"
    by (simp add: sample_defs run_defs)
  have tr: "trace (snd (Backup envHostFail p0)) =
       trace p0 @ [EvHosts [''h1'', ''h2''], EvS3SnapshotHistory True,
                   EvNow ''2024-01-02_000000'', EvHistList [''2024-01-01_000000''],
                   EvSchemaBackup ''h1'' True,
                   EvS3UploadFile ''h1'' ''s.cql''
                     ''/b/ks/2024-01-01_000000/2024-01-02_000000/ks.schema.gz'' True,
                   EvSnapshot ''h1'' ''2024-01-02_000000'' True,
                   EvS3UploadFiles ''2024-01-01_000000'' ''2024-01-02_000000'' ''h1'' True,
                   EvDeleteSnapshot ''h1'' True,
                   EvSnapshot ''h2'' ''2024-01-02_000000'' True,
                   EvS3UploadFiles ''2024-01-01_000000'' ''2024-01-02_000000'' ''h2'' False]"
    by (simp add: sample_defs run_defs)
  from Backup_hosts_in_order [OF run tr] run tr show ?thesis by blast
qed

text \<open>
  C10. \<open>Backup\<close> leaves the configuration as it was or only sets \<open>Incremental\<close> to
  \<open>False\<close>; the change is part of the state that \<open>Backup\<close> returns. A run that passes the
  timestamp check with an empty history, or with \<open>Incremental\<close> not set, ends with
  \<open>Incremental\<close> equal to \<open>False\<close>.
\<close>

theorem Backup_config_frame:
  assumes "Backup E p = (r, p')" and "trace p' = trace p @ evs"
  shows "(config p' = config p \<or> config p' = (config p)\<lparr>Incremental := False\<rparr>)
       \<and> (\<forall>ts snaps. EvNow ts \<in> set evs \<and> EvHistList snaps \<in> set evs
              \<and> \<not> (snaps \<noteq> [] \<and> ts < last snaps)
              \<and> (snaps = [] \<or> \<not> Incremental (config p)) \<longrightarrow>
            config p' = (config p)\<lparr>Incremental := False\<rparr> \<and> \<not> Incremental (config p'))"
proof
  from assms(1) show "config p' = config p \<or> config p' = (config p)\<lparr>Incremental := False\<rparr>"
  proof (cases rule: Backup_run)
    case (Proceeded hosts load h ts snaps sevs sok hevs)
    then show ?thesis by (cases "snaps \<noteq> [] \<and> Incremental (config p)") auto
  qed simp_all
next
  show "\<forall>ts snaps. EvNow ts \<in> set evs \<and> EvHistList snaps \<in> set evs
              \<and> \<not> (snaps \<noteq> [] \<and> ts < last snaps)
              \<and> (snaps = [] \<or> \<not> Incremental (config p)) \<longrightarrow>
            config p' = (config p)\<lparr>Incremental := False\<rparr> \<and> \<not> Incremental (config p')"
  proof (intro allI impI, elim conjE)
    fix ts snaps
    assume a: "EvNow ts \<in> set evs" "EvHistList snaps \<in> set evs"
      "\<not> (snaps \<noteq> [] \<and> ts < last snaps)" "snaps = [] \<or> \<not> Incremental (config p)"
    from assms a(1,2)
    show "config p' = (config p)\<lparr>Incremental := False\<rparr> \<and> \<not> Incremental (config p')"
    proof (cases rule: Backup_evs)
      case (NonMonotonic hosts load)
      with a(3) show ?thesis by simp
    next
      case (Proceeded hosts load sevs sok hevs)
      with a(4) show ?thesis by auto
    qed
  qed
qed

text \<open>C10, a run: an incremental backup is requested on an empty history.\<close>

theorem Backup_config_frame_witness:
  "Backup envEmpty p0 = (None, snd (Backup envEmpty p0))
   \<and> trace (snd (Backup envEmpty p0)) =
       trace p0 @ [EvHosts [''h1'', ''h2''], EvS3SnapshotHistory True,
                   EvNow ''2024-01-02_000000'', EvHistList [],
                   EvSchemaBackup ''h1'' True,
                   EvS3UploadFile ''h1'' ''s.cql''
                     ''/b/ks/2024-01-02_000000/2024-01-02_000000/ks.schema.gz'' True,
                   EvSnapshot ''h1'' ''2024-01-02_000000'' True,
                   EvS3UploadFiles ''2024-01-02_000000'' ''2024-01-02_000000'' ''h1'' True,
                   EvDeleteSnapshot ''h1'' True,
                   EvSnapshot ''h2'' ''2024-01-02_000000'' True,
                   EvS3UploadFiles ''2024-01-02_000000'' ''2024-01-02_000000'' ''h2'' True,
                   EvDeleteSnapshot ''h2'' True]
   \<and> Incremental (config p0)
   \<and> config (snd (Backup envEmpty p0)) = (config p0)\<lparr>Incremental := False\<rparr>"
proof -
  let ?evs = "[EvHosts [''h1'', ''h2''], EvS3SnapshotHistory True,
                   EvNow ''2024-01-02_000000'', EvHistList [],
                   EvSchemaBackup ''h1'' True,
                   EvS3UploadFile ''h1'' ''s.cql''
                     ''/b/ks/2024-01-02_000000/2024-01-02_000000/ks.schema.gz'' True,
                   EvSnapshot ''h1'' ''2024-01-02_000000'' True,
                   EvS3UploadFiles ''2024-01-02_000000'' ''2024-01-02_000000'' ''h1'' True,
                   EvDeleteSnapshot ''h1'' True,
                   EvSnapshot ''h2'' ''2024-01-02_000000'' True,
                   EvS3UploadFiles ''2024-01-02_000000'' ''2024-01-02_000000'' ''h2'' True,
                   EvDeleteSnapshot ''h2'' True]"
  have run: "Backup envEmpty p0 = (None, snd (Backup envEmpty p0))"
    by (simp add: sample_defs run_defs)
  have tr: "trace (snd (Backup envEmpty p0)) = trace p0 @ ?evs"
    by (simp add: sample_defs run_defs)
  have pre: "EvNow ''2024-01-02_000000'' \<in> set ?evs \<and> EvHistList [] \<in> set ?evs
         \<and> \<not> (([]::string list) \<noteq> [] \<and> ''2024-01-02_000000'' < last [])
         \<and> (([]::string list) = [] \<or> \<not> Incremental (config p0))"
    by simp
  have inc: "Incremental (config p0)" by (simp add: sample_defs)
  from Backup_config_frame [OF run tr] pre
  have "config (snd (Backup envEmpty p0)) = (config p0)\<lparr>Incremental := False\<rparr>"
    by blast
  with run tr inc show ?thesis by simp
qed

subsection \<open>Restore\<close>



text \<open>
  C4. A run of \<open>Restore\<close> issues the command that drops the keyspace at most once. When
  the validation of the target succeeds it issues it exactly once, on the first host,
  directly after the validation: nothing before it is a restore step, and everything
  after it is a step of the schema recreation or of the data loading, none of which is
  the drop. From the drop on, only the last call of the run may have failed, and
  \<open>Restore\<close> returns \<open>nil\<close> exactly when none has: a failure ends the run with an error and no
  call follows it, so nothing is rolled back. A run without a successful validation
  returns an error and makes no restore step.
\<close>

theorem Restore_drop_once:
  assumes "Restore E p = (r, p')" and "trace p' = trace p @ evs"
  shows "length (filter (isDrop (config p)) evs) \<le> 1
       \<and> (\<forall>s. EvHistValid s True \<in> set evs \<longrightarrow>
            length (filter (isDrop (config p)) evs) = 1
            \<and> (\<exists>hosts pre okd post.
                  evs = EvHosts hosts # pre
                          @ [EvHistValid s True,
                             EvAgentRun (hd hosts) (deleteKeyspace_cmd (config p)) okd]
                          @ post
                  \<and> (\<forall>e \<in> set pre. \<not> restoreOp e)
                  \<and> (\<forall>e \<in> set post. restoreOp e \<and> \<not> isDrop (config p) e)
                  \<and> failFast (EvAgentRun (hd hosts) (deleteKeyspace_cmd (config p)) okd # post)
                       (r = None)))
       \<and> ((\<forall>s. EvHistValid s True \<notin> set evs) \<longrightarrow>
            r \<noteq> None \<and> (\<forall>e \<in> set evs. \<not> restoreOp e))"
  using assms(1)
proof (cases rule: Restore_run)
  case NoHosts
  with assms(2) have "evs = [EvHosts []]" by simp
  with NoHosts show ?thesis by simp
next
  case (HistoryFailed hosts err)
  with assms(2) have "evs = [EvHosts hosts, EvS3SnapshotHistory False]" by simp
  with HistoryFailed show ?thesis by simp
next
  case (NoBackup hosts load h)
  with assms(2) have "evs = [EvHosts hosts] @ load @ [EvHistList (hist_List E h)]" by simp
  with NoBackup(2,5) show ?thesis by auto
next
  case (Invalid hosts load h look)
  with assms(2) have "evs = [EvHosts hosts] @ load @ look
       @ [EvHistValid (resolvedTarget (Snapshot (config p)) (hist_List E h)) False]" by simp
  with Invalid(2,3,6) show ?thesis by auto
next
  case (Validated hosts load h look okd post)
  let ?t = "resolvedTarget (Snapshot (config p)) (hist_List E h)"
  let ?drop = "EvAgentRun (hd hosts) (deleteKeyspace_cmd (config p)) okd"
  from Validated(6) assms(2)
  have evs: "evs = EvHosts hosts # (load @ look) @ [EvHistValid ?t True, ?drop] @ post"
    by simp
  have pre: "\<forall>e \<in> set (load @ look). \<not> restoreOp e \<and> \<not> isDrop (config p) e
                \<and> (\<forall>s. e \<noteq> EvHistValid s True)"
    using Validated(2,3) by auto
  have post: "\<forall>e \<in> set post. restoreOp e \<and> \<not> isDrop (config p) e
                \<and> (\<forall>s. e \<noteq> EvHistValid s True)"
    using restoreSteps_events [OF Validated(7)] by fastforce
  have one: "length (filter (isDrop (config p)) evs) = 1"
    unfolding evs using pre post by (simp add: filter_empty_conv)
  have only: "s = ?t" if "EvHistValid s True \<in> set evs" for s
    using that pre post unfolding evs by auto
  have shape: "\<exists>hosts' pre' okd' post'.
                  evs = EvHosts hosts' # pre'
                          @ [EvHistValid ?t True,
                             EvAgentRun (hd hosts') (deleteKeyspace_cmd (config p)) okd']
                          @ post'
                  \<and> (\<forall>e \<in> set pre'. \<not> restoreOp e)
                  \<and> (\<forall>e \<in> set post'. restoreOp e \<and> \<not> isDrop (config p) e)
                  \<and> failFast (EvAgentRun (hd hosts') (deleteKeyspace_cmd (config p)) okd' # post')
                       (r = None)"
    using evs pre post Validated(8) by blast
  have valid: "EvHistValid ?t True \<in> set evs" unfolding evs by simp
  show ?thesis
  proof (intro conjI allI impI)
    show "length (filter (isDrop (config p)) evs) \<le> 1" using one by simp
  next
    fix s assume "EvHistValid s True \<in> set evs"
    then show "length (filter (isDrop (config p)) evs) = 1" using one by simp
  next
    fix s assume "EvHistValid s True \<in> set evs"
    then have "s = ?t" by (rule only)
    with shape show "\<exists>hosts pre okd post.
                  evs = EvHosts hosts # pre
                          @ [EvHistValid s True,
                             EvAgentRun (hd hosts) (deleteKeyspace_cmd (config p)) okd]
                          @ post
                  \<and> (\<forall>e \<in> set pre. \<not> restoreOp e)
                  \<and> (\<forall>e \<in> set post. restoreOp e \<and> \<not> isDrop (config p) e)
                  \<and> failFast (EvAgentRun (hd hosts) (deleteKeyspace_cmd (config p)) okd # post)
                       (r = None)"
      by simp
  next
    assume "\<forall>s. EvHistValid s True \<notin> set evs"
    with valid show "r \<noteq> None" by blast
  next
    assume "\<forall>s. EvHistValid s True \<notin> set evs"
    with valid show "\<forall>e \<in> set evs. \<not> restoreOp e" by blast
  qed
qed

text \<open>C4, a run: the bulk load fails after the keyspace was dropped and the schema recreated.\<close>

theorem Restore_drop_once_witness:
  "Restore envLoadFail p0
     = (Some ''error loading snapshot: failed to run sstableloader: refused'',
        snd (Restore envLoadFail p0))
   \<and> trace (snd (Restore envLoadFail p0))
       = trace p0 @
         [EvHosts [''h1'', ''h2''], EvS3SnapshotHistory True,
          EvHistList [''2024-01-01_000000''], EvHistValid ''2024-01-01_000000'' True,
          EvAgentRun ''h1'' (deleteKeyspace_cmd (config p0)) True,
          EvHistParent ''2024-01-01_000000'' ''2024-01-01_000000'',
          EvS3DownloadKey ''/b/ks/2024-01-01_000000/2024-01-01_000000/ks.schema.gz''
            ''/tmp/local'' True,
          EvAgentUploadFile ''h1'' ''l.gz''
            ''/tmp/remote/b/ks/2024-01-01_000000/2024-01-01_000000'' True,
          EvAgentRun ''h1''
            ''cat /tmp/remote/b/ks/2024-01-01_000000/2024-01-01_000000/ks.schema | cqlsh'' True,
          EvHistKeys ''2024-01-01_000000'' True, EvS3DownloadKeys ''/tmp/local'' True,
          EvAgentUploadFile ''h1'' ''f1'' ''/tmp/remote/a'' True,
          EvAgentUploadFile ''h1'' ''f2'' ''/tmp/remote/a'' True,
          EvSSTableLoad ''h1'' False]
   \<and> length (filter (isDrop (config p0)) (trace (snd (Restore envLoadFail p0)))) = 1"
proof -
  let ?evs = "[EvHosts [''h1'', ''h2''], EvS3SnapshotHistory True,
          EvHistList [''2024-01-01_000000''], EvHistValid ''2024-01-01_000000'' True,
          EvAgentRun ''h1'' (deleteKeyspace_cmd (config p0)) True,
          EvHistParent ''2024-01-01_000000'' ''2024-01-01_000000'',
          EvS3DownloadKey ''/b/ks/2024-01-01_000000/2024-01-01_000000/ks.schema.gz''
            ''/tmp/local'' True,
          EvAgentUploadFile ''h1'' ''l.gz''
            ''/tmp/remote/b/ks/2024-01-01_000000/2024-01-01_000000'' True,
          EvAgentRun ''h1''
            ''cat /tmp/remote/b/ks/2024-01-01_000000/2024-01-01_000000/ks.schema | cqlsh'' True,
          EvHistKeys ''2024-01-01_000000'' True, EvS3DownloadKeys ''/tmp/local'' True,
          EvAgentUploadFile ''h1'' ''f1'' ''/tmp/remote/a'' True,
          EvAgentUploadFile ''h1'' ''f2'' ''/tmp/remote/a'' True,
          EvSSTableLoad ''h1'' False]"
  have run: "Restore envLoadFail p0
     = (Some ''error loading snapshot: failed to run sstableloader: refused'',
        snd (Restore envLoadFail p0))"
    by (simp add: sample_defs run_defs)
  have tr: "trace (snd (Restore envLoadFail p0)) = trace p0 @ ?evs"
    by (simp add: sample_defs run_defs)
  have valid: "EvHistValid ''2024-01-01_000000'' True \<in> set ?evs" by simp
  have t0: "trace p0 = []" by (simp add: p0_def)
  from Restore_drop_once [OF run tr] valid
  have "length (filter (isDrop (config p0)) ?evs) = 1" by blast
  with run tr t0 show ?thesis by simp
qed

subsection \<open>History\<close>

text \<open>
  C7. When no history is cached and the object store answers, \<open>SnapshotHistory\<close> records
  one query and caches the answer. A call that follows a successful one returns \<open>nil\<close> and
  changes nothing. Once a history is cached, \<open>SnapshotHistory\<close> returns without a query,
  and \<open>History\<close>, \<open>Backup\<close> and \<open>Restore\<close> keep the cached history and do not query the
  object store for it again.
\<close>

theorem SnapshotHistory_idempotent:
  "(hist p = None \<and> s3_SnapshotHistory E p = Inr h \<longrightarrow>
      SnapshotHistory E p
        = (None, p\<lparr>hist := Some h, trace := trace p @ [EvS3SnapshotHistory True]\<rparr>))
   \<and> (fst (SnapshotHistory E p) = None \<longrightarrow>
        SnapshotHistory E (snd (SnapshotHistory E p)) = (None, snd (SnapshotHistory E p)))
   \<and> (hist p = Some h \<longrightarrow>
        SnapshotHistory E p = (None, p)
        \<and> (\<forall>run \<in> {History E, Backup E, Restore E}.
              hist (snd (run p)) = Some h
              \<and> (\<exists>evs. trace (snd (run p)) = trace p @ evs
                    \<and> (\<forall>b. EvS3SnapshotHistory b \<notin> set evs))))"
proof (intro conjI impI)
  assume "hist p = None \<and> s3_SnapshotHistory E p = Inr h"
  then show "SnapshotHistory E p
        = (None, p\<lparr>hist := Some h, trace := trace p @ [EvS3SnapshotHistory True]\<rparr>)"
    by (simp add: SnapshotHistory_def emit_def)
next
  assume ok: "fst (SnapshotHistory E p) = None"
  obtain p1 where sh: "SnapshotHistory E p = (None, p1)"
    using ok by (cases "SnapshotHistory E p") auto
  from SnapshotHistory_ok [OF sh] obtain h' where "hist p1 = Some h'" by blast
  then have "SnapshotHistory E p1 = (None, p1)" by (simp add: SnapshotHistory_def)
  with sh show "SnapshotHistory E (snd (SnapshotHistory E p)) = (None, snd (SnapshotHistory E p))"
    by simp
next
  assume "hist p = Some h"
  then show "SnapshotHistory E p = (None, p)" by (simp add: SnapshotHistory_def)
next
  assume h: "hist p = Some h"
  have hi: "hist (snd (History E p)) = Some h
              \<and> (\<exists>evs. trace (snd (History E p)) = trace p @ evs
                    \<and> (\<forall>b. EvS3SnapshotHistory b \<notin> set evs))"
    using h by (simp add: History_run [OF h])
  have ba: "hist (snd (Backup E p)) = Some h
              \<and> (\<exists>evs. trace (snd (Backup E p)) = trace p @ evs
                    \<and> (\<forall>b. EvS3SnapshotHistory b \<notin> set evs))"
    using Backup_cached [OF h, of E "fst (Backup E p)" "snd (Backup E p)"] by simp
  have re: "hist (snd (Restore E p)) = Some h
              \<and> (\<exists>evs. trace (snd (Restore E p)) = trace p @ evs
                    \<and> (\<forall>b. EvS3SnapshotHistory b \<notin> set evs))"
    using Restore_cached [OF h, of E "fst (Restore E p)" "snd (Restore E p)"] by simp
  from hi ba re
  show "\<forall>run \<in> {History E, Backup E, Restore E}.
              hist (snd (run p)) = Some h
              \<and> (\<exists>evs. trace (snd (run p)) = trace p @ evs
                    \<and> (\<forall>b. EvS3SnapshotHistory b \<notin> set evs))"
    by blast
qed

text \<open>C7, a run: the first call loads the history, the second call and a backup keep it.\<close>

theorem SnapshotHistory_idempotent_witness:
  "hist p0 = None
   \<and> s3_SnapshotHistory env0 p0 = Inr [(''2024-01-01_000000'', ''2024-01-01_000000'')]
   \<and> SnapshotHistory env0 p0
       = (None, p0\<lparr>hist := Some [(''2024-01-01_000000'', ''2024-01-01_000000'')],
                   trace := trace p0 @ [EvS3SnapshotHistory True]\<rparr>)
   \<and> SnapshotHistory env0 (snd (SnapshotHistory env0 p0)) = (None, snd (SnapshotHistory env0 p0))
   \<and> hist (snd (Backup env0 (snd (SnapshotHistory env0 p0))))
       = Some [(''2024-01-01_000000'', ''2024-01-01_000000'')]"
proof -
  let ?h = "[(''2024-01-01_000000'', ''2024-01-01_000000'')]"
  let ?p1 = "snd (SnapshotHistory env0 p0)"
  have a: "hist p0 = None \<and> s3_SnapshotHistory env0 p0 = Inr ?h"
    by (simp add: sample_defs)
  note first = SnapshotHistory_idempotent [where p = p0 and E = env0 and h = ?h]
  from first a have load: "SnapshotHistory env0 p0
       = (None, p0\<lparr>hist := Some ?h, trace := trace p0 @ [EvS3SnapshotHistory True]\<rparr>)"
    by blast
  then have h1: "hist ?p1 = Some ?h" by simp
  note again = SnapshotHistory_idempotent [where p = ?p1 and E = env0 and h = ?h]
  from again h1 have "SnapshotHistory env0 ?p1 = (None, ?p1)"
    and "hist (snd (Backup env0 ?p1)) = Some ?h"
    by blast+
  with a load show ?thesis by simp
qed

subsection \<open>Keys and remote directories\<close>

text \<open>
  C8. The key under which \<open>schemaBackup\<close> uploads the schema file for a parent and a
  timestamp is \<open>/basePath/keyspace/parent/timestamp/keyspace.schema.gz\<close>, and \<open>createSchema\<close>,
  for the same base path and keyspace, for that timestamp as target and a history that
  gives the same parent, downloads exactly this key. (The key starts with a slash, as
  the format string of the source does.)
\<close>

theorem schema_key_backup_restore:
  assumes "schemaBackup E parent ts bhost p = (rb, p')" and "trace p' = trace p @ bevs"
    and "EvS3UploadFile uhost sfile key ok \<in> set bevs"
    and "createSchema E' h rhost ts q = (rr, q')" and "trace q' = trace q @ revs"
    and "AwsBasePath (config q) = AwsBasePath (config p)"
    and "Keyspace (config q) = Keyspace (config p)"
    and "hist_Parent E' h ts = parent"
  shows "key = ''/'' @ AwsBasePath (config p) @ ''/'' @ Keyspace (config p) @ ''/'' @ parent
                 @ ''/'' @ ts @ ''/'' @ Keyspace (config p) @ ''.schema.gz''
       \<and> (\<exists>dok. EvS3DownloadKey key (TempDir (config q) @ ''/local'') dok \<in> set revs)
       \<and> schemaBackup_key (config p) parent ts = createSchema_key (config q) parent ts"
proof -
  from assms(1) have "key = schemaBackup_key (config p) parent ts"
  proof (cases rule: schemaBackup_cases)
    case (DumpFailed err)
    with assms(2,3) show ?thesis by auto
  next
    case (UploadFailed sfile' err)
    with assms(2,3) show ?thesis by auto
  next
    case (Uploaded sfile')
    with assms(2,3) show ?thesis by auto
  qed
  moreover from createSchema_run [OF assms(4)] assms(5,8)
  have "\<exists>dok. EvS3DownloadKey (createSchema_key (config q) parent ts)
                (TempDir (config q) @ ''/local'') dok \<in> set revs"
    unfolding schemaSteps_def by auto
  moreover have "schemaBackup_key (config p) parent ts = createSchema_key (config q) parent ts"
    using assms(6,7) by (simp add: schemaBackup_key_def createSchema_key_def)
  ultimately show ?thesis using assms(6,7) by (simp add: createSchema_key_def)
qed

text \<open>C8, a run: a schema backup and the schema restore of the same snapshot.\<close>

theorem schema_key_backup_restore_witness:
  "schemaBackup env0 ''2024-01-01_000000'' ''2024-01-02_000000'' ''h1'' p0
     = (None, snd (schemaBackup env0 ''2024-01-01_000000'' ''2024-01-02_000000'' ''h1'' p0))
   \<and> trace (snd (schemaBackup env0 ''2024-01-01_000000'' ''2024-01-02_000000'' ''h1'' p0))
       = trace p0 @
         [EvSchemaBackup ''h1'' True,
          EvS3UploadFile ''h1'' ''s.cql''
            ''/b/ks/2024-01-01_000000/2024-01-02_000000/ks.schema.gz'' True]
   \<and> createSchema env0 [(''2024-01-02_000000'', ''2024-01-01_000000'')] ''h2''
         ''2024-01-02_000000'' p0
       = (None, snd (createSchema env0 [(''2024-01-02_000000'', ''2024-01-01_000000'')] ''h2''
                       ''2024-01-02_000000'' p0))
   \<and> trace (snd (createSchema env0 [(''2024-01-02_000000'', ''2024-01-01_000000'')] ''h2''
                    ''2024-01-02_000000'' p0))
       = trace p0 @
         [EvHistParent ''2024-01-02_000000'' ''2024-01-01_000000'',
          EvS3DownloadKey ''/b/ks/2024-01-01_000000/2024-01-02_000000/ks.schema.gz''
            ''/tmp/local'' True,
          EvAgentUploadFile ''h2'' ''l.gz''
            ''/tmp/remote/b/ks/2024-01-01_000000/2024-01-02_000000'' True,
          EvAgentRun ''h2''
            ''cat /tmp/remote/b/ks/2024-01-01_000000/2024-01-02_000000/ks.schema | cqlsh'' True]
   \<and> hist_Parent env0 [(''2024-01-02_000000'', ''2024-01-01_000000'')] ''2024-01-02_000000''
       = ''2024-01-01_000000''
   \<and> ''/b/ks/2024-01-01_000000/2024-01-02_000000/ks.schema.gz''
       = ''/'' @ AwsBasePath (config p0) @ ''/'' @ Keyspace (config p0) @ ''/''
           @ ''2024-01-01_000000'' @ ''/'' @ ''2024-01-02_000000'' @ ''/''
           @ Keyspace (config p0) @ ''.schema.gz''"
proof -
  let ?h = "[(''2024-01-02_000000'', ''2024-01-01_000000'')]"
  let ?key = "''/b/ks/2024-01-01_000000/2024-01-02_000000/ks.schema.gz''"
  let ?bevs = "[EvSchemaBackup ''h1'' True, EvS3UploadFile ''h1'' ''s.cql'' ?key True]"
  let ?revs = "[EvHistParent ''2024-01-02_000000'' ''2024-01-01_000000'',
          EvS3DownloadKey ?key ''/tmp/local'' True,
          EvAgentUploadFile ''h2'' ''l.gz''
            ''/tmp/remote/b/ks/2024-01-01_000000/2024-01-02_000000'' True,
          EvAgentRun ''h2''
            ''cat /tmp/remote/b/ks/2024-01-01_000000/2024-01-02_000000/ks.schema | cqlsh'' True]"
  have b: "schemaBackup env0 ''2024-01-01_000000'' ''2024-01-02_000000'' ''h1'' p0
     = (None, snd (schemaBackup env0 ''2024-01-01_000000'' ''2024-01-02_000000'' ''h1'' p0))"
    by (simp add: sample_defs run_defs)
  have bt: "trace (snd (schemaBackup env0 ''2024-01-01_000000'' ''2024-01-02_000000'' ''h1'' p0))
       = trace p0 @ ?bevs"
    by (simp add: sample_defs run_defs)
  have up: "EvS3UploadFile ''h1'' ''s.cql'' ?key True \<in> set ?bevs" by simp
  have c: "createSchema env0 ?h ''h2'' ''2024-01-02_000000'' p0
       = (None, snd (createSchema env0 ?h ''h2'' ''2024-01-02_000000'' p0))"
    by (simp add: sample_defs run_defs)
  have ct: "trace (snd (createSchema env0 ?h ''h2'' ''2024-01-02_000000'' p0)) = trace p0 @ ?revs"
    by (simp add: sample_defs run_defs)
  have par: "hist_Parent env0 ?h ''2024-01-02_000000'' = ''2024-01-01_000000''"
    by (simp add: sample_defs)
  from schema_key_backup_restore [OF b bt up c ct refl refl par] b bt c ct par
  show ?thesis by simp
qed

text \<open>
  C9. When \<open>uploadFilesToHost\<close> succeeds on the entries \<open>files\<close> of the map (in the order of
  the iteration), it has uploaded each local file, in that order, to the directory
  \<open>path.Dir(remoteTmpDir/key)\<close> of its key, and the map it returns has exactly these
  directories as keys, each with the value \<open>true\<close>; a directory shared by several files is
  one key.
\<close>

theorem uploadFilesToHost_dirs:
  assumes "uploadFilesToHost E host remoteTmpDir files p = (Inr dirs, p')"
  shows "trace p' = trace p @ map (\<lambda>(key, localFile).
            EvAgentUploadFile host localFile (path_Dir E (remoteTmpDir @ ''/'' @ key)) True) files
       \<and> dom dirs = (\<lambda>(key, localFile). path_Dir E (remoteTmpDir @ ''/'' @ key)) ` set files
       \<and> (\<forall>d \<in> dom dirs. dirs d = Some True)"
  using uploadFilesLoop_dirs [OF assms [unfolded uploadFilesToHost_def]]
  by (auto simp: dom_def split: if_splits)

text \<open>C9, a run: two files whose keys have the same directory.\<close>

theorem uploadFilesToHost_dirs_witness:
  "uploadFilesToHost env0 ''h1'' ''/tmp/remote'' [(''a/k1'', ''f1''), (''a/k2'', ''f2'')] p0
     = (Inr [''/tmp/remote/a'' \<mapsto> True],
        snd (uploadFilesToHost env0 ''h1'' ''/tmp/remote'' [(''a/k1'', ''f1''), (''a/k2'', ''f2'')] p0))
   \<and> trace (snd (uploadFilesToHost env0 ''h1'' ''/tmp/remote''
                    [(''a/k1'', ''f1''), (''a/k2'', ''f2'')] p0))
       = [EvAgentUploadFile ''h1'' ''f1'' ''/tmp/remote/a'' True,
          EvAgentUploadFile ''h1'' ''f2'' ''/tmp/remote/a'' True]
   \<and> dom [''/tmp/remote/a'' \<mapsto> True] = {''/tmp/remote/a''}"
proof -
  let ?files = "[(''a/k1'', ''f1''), (''a/k2'', ''f2'')]"
  have run: "uploadFilesToHost env0 ''h1'' ''/tmp/remote'' ?files p0
     = (Inr [''/tmp/remote/a'' \<mapsto> True],
        snd (uploadFilesToHost env0 ''h1'' ''/tmp/remote'' ?files p0))"
    by (simp add: sample_defs run_defs)
  have dir: "path_Dir env0 (''/tmp/remote'' @ ''/'' @ ''a/k1'') = ''/tmp/remote/a''"
    "path_Dir env0 (''/tmp/remote'' @ ''/'' @ ''a/k2'') = ''/tmp/remote/a''"
    by (simp_all add: sample_defs)
  have t0: "trace p0 = []" by (simp add: p0_def)
  from uploadFilesToHost_dirs [OF run] dir t0 run show ?thesis by simp
qed

end
